theory Spec2Isabelle
  imports Main "HOL-Library.Sublist" "HOL-Library.Signed_Division" "HOL-Library.Word"
begin

section \<open>Outcomes of a Go call\<close>

text \<open>
  A Go call either returns, panics (a run-time error such as an index out of range or an
  integer division by zero) or never returns because every goroutine it waits for is blocked.
  Go's \<open>int\<close> is modelled by \<open>int\<close> where the values are bounded by the length of a
  slice or a string, far from 2^63.
\<close>

datatype 'a run = Returned 'a | Panicked | Blocked

definition run_bind :: "'a run \<Rightarrow> ('a \<Rightarrow> 'b run) \<Rightarrow> 'b run" where
  "run_bind m f = (case m of Returned x \<Rightarrow> f x | Panicked \<Rightarrow> Panicked | Blocked \<Rightarrow> Blocked)"

definition len :: "'a list \<Rightarrow> int" where
  "len xs = int (length xs)"

text \<open>
  The slice expression \<open>xs[lo:hi]\<close>. Go panics unless \<open>0 \<le> lo \<le> hi \<le> len(xs)\<close>
  (for a string; the slices of file names below have no spare capacity beyond their length
  that the code could reach).
\<close>

definition slice :: "'a list \<Rightarrow> int \<Rightarrow> int \<Rightarrow> 'a list run" where
  "slice xs lo hi =
     (if 0 \<le> lo \<and> lo \<le> hi \<and> hi \<le> len xs
      then Returned (take (nat (hi - lo)) (drop (nat lo) xs))
      else Panicked)"

text \<open>
  The value of an \<open>int\<close> expression whose exact result is \<open>x\<close>: Go's \<open>int\<close> has 64
  bits here and wraps around. It is written out where a reachable input can pass the range.
\<close>

definition wrap64 :: "int \<Rightarrow> int" where
  "wrap64 x = sint (word_of_int x :: 64 word)"

section \<open>pkg/restorer/importer.go: the success marker\<close>

text \<open>
  \<open>indexOf\<close>: the loop \<open>for i := 0; i <= len(s)-len(substr); i++\<close>, returning the first
  \<open>i\<close> with \<open>s[i:i+len(substr)] == substr\<close> and \<open>-1\<close> when the loop ends.
\<close>

function indexOf_loop :: "string \<Rightarrow> string \<Rightarrow> int \<Rightarrow> int run" where
  "indexOf_loop s substr i =
     (if i \<le> len s - len substr
      then run_bind (slice s i (i + len substr))
             (\<lambda>w. if w = substr then Returned i else indexOf_loop s substr (i + 1))
      else Returned (- 1))"
  by pat_completeness auto
termination
  by (relation "measure (\<lambda>(s, substr, i). nat (len s - len substr + 1 - i))") auto

definition indexOf :: "string \<Rightarrow> string \<Rightarrow> int run" where
  "indexOf s substr = indexOf_loop s substr 0"

text \<open>
  \<open>contains\<close>, with the short-circuit order of \<open>&&\<close> and \<open>||\<close> as written:
  \<open>len(s) >= len(substr) && (s == substr || len(s) > len(substr) &&
     (s[:len(substr)] == substr || s[len(s)-len(substr):] == substr || indexOf(s, substr) >= 0))\<close>.
\<close>

definition contains :: "string \<Rightarrow> string \<Rightarrow> bool run" where
  "contains s substr =
     (if \<not> len s \<ge> len substr then Returned False
      else if s = substr then Returned True
      else if \<not> len s > len substr then Returned False
      else run_bind (slice s 0 (len substr)) (\<lambda>p.
        if p = substr then Returned True
        else run_bind (slice s (len s - len substr) (len s)) (\<lambda>q.
          if q = substr then Returned True
          else run_bind (indexOf s substr) (\<lambda>k. Returned (k \<ge> 0)))))"

definition containsSuccess :: "string \<Rightarrow> bool run" where
  "containsSuccess output =
     run_bind (contains output ''successfully'') (\<lambda>a.
       if a then Returned True
       else run_bind (contains output ''success'') (\<lambda>b.
         if b then Returned True
         else contains output ''Success''))"

section \<open>Errors, the cluster and the world\<close>

text \<open>
  A Go \<open>error\<close> value: \<open>Err msg\<close> is \<open>fmt.Errorf(msg)\<close> or a library error,
  \<open>Wrap msg e\<close> is \<open>fmt.Errorf\<close> with the verb \<open>%w\<close> applied to \<open>e\<close>; \<open>msg\<close> is
  the rest of the text (the source's Chinese messages are given in English).
\<close>

datatype error = Err string | Wrap string error

text \<open>
  What the program does to its surroundings, in order: a Pods.Get request of the Kubernetes
  API, a command streamed into a container, a \<open>time.Sleep\<close> of the given number of seconds.
\<close>

datatype call =
    PodsGet string string
  | PodExec string string string "string list"
  | Sleep int

text \<open>
  What \<open>StreamWithContext\<close> delivers: the two captured streams, its error, whether the
  call's context has passed its deadline, and the self link \<open>meta.Accessor\<close> finds when the
  error value is an API object.
\<close>

record stream_reply =
  out :: string
  errout :: string
  stream_err :: "error option"
  deadline_exceeded :: bool
  accessor :: "string option"

text \<open>
  The cluster is the part of the world the program does not own. Its answers may depend on
  everything done so far: each is a function of the calls made up to and including the
  present one. \<open>new_spdy\<close> is \<open>remotecommand.NewSPDYExecutor\<close>, which sends nothing.
\<close>

record cluster =
  get_reply :: "call list \<Rightarrow> error + string list"
  new_spdy :: "call list \<Rightarrow> error option"
  exec_reply :: "call list \<Rightarrow> stream_reply"

text \<open>
  The struct \<open>Executor\<close> (its client handles are the cluster, its timeout bounds the
  stream and shows in \<open>deadline_exceeded\<close>), and the world a call runs in: the one
  executor the restorer and its importer share, and the calls made so far.
\<close>

record Executor =
  namespace :: string
  podName :: string
  container :: string

record world =
  exe :: Executor
  calls :: "call list"

type_synonym 'a prog = "world \<Rightarrow> ('a \<times> world) run"

definition ret :: "'a \<Rightarrow> 'a prog" where
  "ret x w = Returned (x, w)"

definition bindP :: "'a prog \<Rightarrow> ('a \<Rightarrow> 'b prog) \<Rightarrow> 'b prog" where
  "bindP m f w = (case m w of Returned (x, w') \<Rightarrow> f x w' | Panicked \<Rightarrow> Panicked | Blocked \<Rightarrow> Blocked)"

definition liftR :: "'a run \<Rightarrow> 'a prog" where
  "liftR r w = (case r of Returned x \<Rightarrow> Returned (x, w) | Panicked \<Rightarrow> Panicked | Blocked \<Rightarrow> Blocked)"

definition do_call :: "call \<Rightarrow> world \<Rightarrow> world" where
  "do_call c w = w\<lparr>calls := calls w @ [c]\<rparr>"

definition NewExecutor :: "string \<Rightarrow> string \<Rightarrow> Executor" where
  "NewExecutor ns pod = \<lparr>namespace = ns, podName = pod, container = []\<rparr>"

section \<open>pkg/k8s: Executor\<close>

text \<open>
  \<open>getContainerName\<close>: the cached name when it is not empty; otherwise one Pods.Get, whose
  first container is stored in the executor and returned. Neither failure stores anything.
\<close>

definition getContainerName :: "cluster \<Rightarrow> (error + string) prog" where
  "getContainerName cl w =
     (if container (exe w) \<noteq> [] then Returned (Inr (container (exe w)), w)
      else
        let w1 = do_call (PodsGet (namespace (exe w)) (podName (exe w))) w in
        case get_reply cl (calls w1) of
          Inl e \<Rightarrow> Returned (Inl (Wrap ''get pod info failed'' e), w1)
        | Inr containers \<Rightarrow>
            (case containers of
               [] \<Rightarrow> Returned (Inl (Err ''pod has no containers''), w1)
             | c0 # _ \<Rightarrow> Returned (Inr c0, w1\<lparr>exe := (exe w1)\<lparr>container := c0\<rparr>\<rparr>)))"

text \<open>
  \<open>Exec\<close> returns \<open>(stdout, stderr, err)\<close>. \<open>command[0]\<close> panics on an empty command,
  after the container name has been resolved.
\<close>

definition stream_result :: "stream_reply \<Rightarrow> string \<times> string \<times> error option" where
  "stream_result r =
     (case stream_err r of
        None \<Rightarrow> (out r, errout r, None)
      | Some e \<Rightarrow>
          (if deadline_exceeded r then (out r, errout r, Some (Wrap ''command timed out'' e))
           else (case accessor r of
                   Some link \<Rightarrow> (out r, errout r, Some (Err (''command failed: '' @ link)))
                 | None \<Rightarrow> (out r, errout r, Some (Wrap ''command failed'' e)))))"

definition stream :: "cluster \<Rightarrow> string \<Rightarrow> string list \<Rightarrow> (string \<times> string \<times> error option) prog" where
  "stream cl containerName command w =
     (case new_spdy cl (calls w) of
        Some e \<Rightarrow> Returned (([], [], Some (Wrap ''create executor failed'' e)), w)
      | None \<Rightarrow>
          (let w1 = do_call (PodExec (namespace (exe w)) (podName (exe w)) containerName command) w
           in Returned (stream_result (exec_reply cl (calls w1)), w1)))"

definition Exec :: "cluster \<Rightarrow> string list \<Rightarrow> (string \<times> string \<times> error option) prog" where
  "Exec cl command =
     bindP (getContainerName cl) (\<lambda>r.
       case r of
         Inl err \<Rightarrow> ret ([], [], Some err)
       | Inr containerName \<Rightarrow>
           (case command of
              [] \<Rightarrow> (\<lambda>w. Panicked)
            | _ # _ \<Rightarrow> stream cl containerName command))"

text \<open>\<open>ExecSimple\<close> returns \<open>(stdout, err)\<close>, the error wrapped as \<open>"%w: %s"\<close> with stderr.\<close>

definition ExecSimple :: "cluster \<Rightarrow> string \<Rightarrow> (string \<times> error option) prog" where
  "ExecSimple cl command =
     bindP (Exec cl [''sh'', ''-c'', command]) (\<lambda>(stdout, stderr, err).
       case err of
         Some e \<Rightarrow> ret (stdout, Some (Wrap ('': '' @ stderr) e))
       | None \<Rightarrow> ret (stdout, None))"

definition sq :: string where
  "sq = [CHR 0x27]"

definition dq :: string where
  "dq = [CHR 0x22]"

definition exists_command :: "string \<Rightarrow> string" where
  "exists_command filePath =
     ''[ -f '' @ sq @ filePath @ sq @ '' ] && echo '' @ sq @ ''exists'' @ sq
       @ '' || echo '' @ sq @ ''not exists'' @ sq"

definition FileExists :: "cluster \<Rightarrow> string \<Rightarrow> (bool \<times> error option) prog" where
  "FileExists cl filePath =
     bindP (ExecSimple cl (exists_command filePath))
       (\<lambda>(output, err).
          case err of
            Some e \<Rightarrow> ret (False, Some e)
          | None \<Rightarrow> ret (output = ''exists'' @ [CHR 0x0A], None))"

text \<open>
  Whether the resolution \<open>getContainerName\<close> would attempt in world \<open>w\<close> fails: the
  Pods.Get request is answered with an error or with a pod that has no container.
\<close>

definition resolution_fails :: "cluster \<Rightarrow> world \<Rightarrow> bool" where
  "resolution_fails cl w =
     (case get_reply cl (calls w @ [PodsGet (namespace (exe w)) (podName (exe w))]) of
        Inl e \<Rightarrow> True
      | Inr containers \<Rightarrow> containers = [])"

section \<open>pkg/config: the configuration the core receives\<close>

text \<open>
  The structs of \<open>config.go\<close> that the restore pipeline reads (the notification and log
  sections are left out). The field \<open>Import\<close> of \<open>Config\<close> is named \<open>ImportConf\<close>, the
  field \<open>KubeConfig\<close> is named \<open>KubeConfigPath\<close>.
\<close>

record KubeConfig =
  Namespace :: string
  PodName :: string
  KubeConfigPath :: string
  Context :: string

record IoTDBConfig =
  DataDir :: string
  CLIPath :: string
  Host :: string
  Port :: int
  Username :: string
  Password :: string

record BackupConfig =
  BaseURL :: string
  DownloadDir :: string
  AutoDetectTimestamp :: bool
  TimestampPattern :: string

record ImportConfig =
  Concurrency :: int
  BatchSize :: int
  RetryCount :: int
  BatchDelay :: int
  BatchPause :: bool

record Config =
  Kubernetes :: KubeConfig
  IoTDB :: IoTDBConfig
  Backup :: BackupConfig
  ImportConf :: ImportConfig

section \<open>pkg/restorer/importer.go: Importer\<close>

text \<open>\<open>ImportResult\<close>, without its wall-clock \<open>Duration\<close>.\<close>

record ImportResult =
  TotalFiles :: int
  SuccessCount :: int
  FailedCount :: int

definition load_command :: "Config \<Rightarrow> string \<Rightarrow> string" where
  "load_command cfg filePath =
     CLIPath (IoTDB cfg) @ '' -h '' @ Host (IoTDB cfg) @ '' -e '' @ dq @ ''load '' @ sq @ filePath @ sq
       @ '' verify=false'' @ dq"

text \<open>
  \<open>importSingleFile\<close> returns its error: the command failed, or neither stream carries a
  success marker (\<open>!containsSuccess(stdout) && !containsSuccess(stderr)\<close>).
\<close>

definition importSingleFile :: "cluster \<Rightarrow> Config \<Rightarrow> string \<Rightarrow> error option prog" where
  "importSingleFile cl cfg filePath =
     bindP (Exec cl [''sh'', ''-c'', load_command cfg filePath]) (\<lambda>(stdout, stderr, err).
       case err of
         Some e \<Rightarrow> ret (Some (Wrap (''run command failed: '' @ stderr) e))
       | None \<Rightarrow>
           bindP (liftR (containsSuccess stdout)) (\<lambda>a.
             if a then ret None
             else bindP (liftR (containsSuccess stderr)) (\<lambda>b.
               if b then ret None
               else ret (Some (Err (''import failed: '' @ stderr))))))"

text \<open>\<open>logMemoryUsage\<close> runs one command and only logs what it reads.\<close>

definition memory_command :: string where
  "memory_command = ''free -m | grep Mem | awk '' @ sq @ ''{print $7}'' @ sq"

definition logMemoryUsage :: "cluster \<Rightarrow> unit prog" where
  "logMemoryUsage cl = bindP (ExecSimple cl memory_command) (\<lambda>r. ret ())"

text \<open>
  The goroutines of one batch. Each adds one to \<open>successCount\<close> or to \<open>failedCount\<close>
  with an atomic add, so the two totals do not depend on the interleaving; the model runs
  the files in the order of the batch. Every goroutine first sends on the semaphore channel
  \<open>sem\<close>: with a capacity of zero no send ever completes and \<open>wg.Wait\<close> never returns.
\<close>

fun import_files :: "cluster \<Rightarrow> Config \<Rightarrow> string list \<Rightarrow> int \<times> int \<Rightarrow> (int \<times> int) prog" where
  "import_files cl cfg [] counts = ret counts"
| "import_files cl cfg (f # fs) counts =
     bindP (importSingleFile cl cfg f) (\<lambda>err.
       case err of
         Some e \<Rightarrow> import_files cl cfg fs (fst counts, snd counts + 1)
       | None \<Rightarrow> import_files cl cfg fs (fst counts + 1, snd counts))"

definition run_batch :: "cluster \<Rightarrow> Config \<Rightarrow> int \<Rightarrow> string list \<Rightarrow> int \<times> int \<Rightarrow> (int \<times> int) prog" where
  "run_batch cl cfg capacity batch counts =
     (if batch \<noteq> [] \<and> capacity = 0 then (\<lambda>w. Blocked)
      else import_files cl cfg batch counts)"

definition sleep_seconds :: "int \<Rightarrow> unit prog" where
  "sleep_seconds n w = Returned ((), do_call (Sleep n) w)"

text \<open>
  The state of the loop of \<open>Import\<close>: the two counters, and the values the variable
  \<open>batch\<close> has taken so far, in order.
\<close>

record import_acc =
  successCount :: int
  failedCount :: int
  batches :: "string list list"

text \<open>
  One iteration of \<open>for i := 0; i < totalFiles; i += batchSize\<close>. \<open>files[i:end]\<close> panics
  when \<open>end < i\<close>, \<open>i/batchSize\<close> panics when \<open>batchSize\<close> is zero. The sum
  \<open>i + batchSize\<close> stays in range: it is computed for \<open>i = 0\<close>, and for a later \<open>i\<close>
  only when \<open>batchSize \<le> i < len(files)\<close>.
\<close>

definition import_iter :: "cluster \<Rightarrow> Config \<Rightarrow> string list \<Rightarrow> int \<Rightarrow> import_acc \<Rightarrow> import_acc prog" where
  "import_iter cl cfg files i acc =
     (let totalFiles = len files;
          batchSize = BatchSize (ImportConf cfg);
          end = (if i + batchSize > totalFiles then totalFiles else i + batchSize)
      in bindP (liftR (slice files i end)) (\<lambda>batch.
           if batchSize = 0 then (\<lambda>w. Panicked)
           else
             bindP (logMemoryUsage cl) (\<lambda>u.
             bindP (run_batch cl cfg (Concurrency (ImportConf cfg)) batch
                      (successCount acc, failedCount acc)) (\<lambda>counts.
             bindP (if i + batchSize < totalFiles \<and> BatchPause (ImportConf cfg)
                    then sleep_seconds (BatchDelay (ImportConf cfg)) else ret ()) (\<lambda>u.
             ret \<lparr>successCount = fst counts, failedCount = snd counts,
                  batches = batches acc @ [batch]\<rparr>)))))"

lemma import_iter_returns_positive:
  "import_iter cl cfg files i acc w = Returned r \<Longrightarrow> i < len files \<Longrightarrow>
     0 < BatchSize (ImportConf cfg)"
  by (cases "BatchSize (ImportConf cfg) < 0")
     (auto simp: import_iter_def Let_def bindP_def liftR_def slice_def split: if_splits run.splits)

function import_loop :: "cluster \<Rightarrow> Config \<Rightarrow> string list \<Rightarrow> int \<Rightarrow> import_acc \<Rightarrow> import_acc prog" where
  "import_loop cl cfg files i acc w =
     (if i < len files
      then (case import_iter cl cfg files i acc w of
              Returned r \<Rightarrow> import_loop cl cfg files (i + BatchSize (ImportConf cfg)) (fst r) (snd r)
            | Panicked \<Rightarrow> Panicked
            | Blocked \<Rightarrow> Blocked)
      else Returned (acc, w))"
  by pat_completeness auto
termination
proof (relation "measure (\<lambda>(cl, cfg, files, i, acc, w). nat (len files - i))")
  show "wf (measure (\<lambda>(cl, cfg, files, i, acc, w). nat (len files - i)))" by simp
next
  fix cl :: cluster and cfg :: Config and files :: "string list" and i :: int
    and acc :: import_acc and w :: world and r :: "import_acc \<times> world"
  assume a: "i < len files" and b: "import_iter cl cfg files i acc w = Returned r"
  have "0 < BatchSize (ImportConf cfg)"
    using import_iter_returns_positive [OF b a] .
  with a show "((cl, cfg, files, i + BatchSize (ImportConf cfg), fst r, snd r), cl, cfg, files, i, acc, w)
      \<in> measure (\<lambda>(cl, cfg, files, i, acc, w). nat (len files - i))"
    by simp
qed

text \<open>
  \<open>Import\<close> returns \<open>(result, nil)\<close>. \<open>make(chan struct{}, n)\<close> panics for a negative
  \<open>n\<close>.
\<close>

definition Import :: "cluster \<Rightarrow> Config \<Rightarrow> string list \<Rightarrow> (ImportResult \<times> error option) prog" where
  "Import cl cfg files =
     (if Concurrency (ImportConf cfg) < 0 then (\<lambda>w. Panicked)
      else
        bindP (import_loop cl cfg files 0 \<lparr>successCount = 0, failedCount = 0, batches = []\<rparr>)
          (\<lambda>acc. ret (\<lparr>TotalFiles = len files, SuccessCount = successCount acc,
                         FailedCount = failedCount acc\<rparr>, None)))"

section \<open>The second batch processor: Batcher\<close>

text \<open>
  \<open>Batch\<close> without its two time stamps, and \<open>Batcher\<close>, which copies the batch size and
  the concurrency out of the configuration when it is made.
\<close>

record Batch =
  Number :: int
  Files :: "string list"
  Processed :: int
  Success :: int
  Failed :: int

record Batcher =
  config :: Config
  batchSize :: int
  concurrency :: int

definition NewBatcher :: "Config \<Rightarrow> Batcher" where
  "NewBatcher cfg =
     \<lparr>config = cfg, batchSize = BatchSize (ImportConf cfg),
      concurrency = Concurrency (ImportConf cfg)\<rparr>"

definition importFile :: "cluster \<Rightarrow> Batcher \<Rightarrow> string \<Rightarrow> error option prog" where
  "importFile cl b filePath =
     bindP (Exec cl [''sh'', ''-c'', load_command (config b) filePath]) (\<lambda>(stdout, stderr, err).
       case err of
         Some e \<Rightarrow> ret (Some (Wrap (''run failed: '' @ stderr) e))
       | None \<Rightarrow>
           bindP (liftR (containsSuccess stdout)) (\<lambda>a.
             if a then ret None
             else bindP (liftR (containsSuccess stderr)) (\<lambda>b.
               if b then ret None
               else ret (Some (Err (''import failed: '' @ stderr))))))"

text \<open>
  The goroutines of \<open>processBatch\<close>, in the order of the batch. Its two counters are
  \<open>int32\<close>: \<open>atomic.AddInt32\<close> wraps around.
\<close>

fun process_files :: "cluster \<Rightarrow> Batcher \<Rightarrow> string list \<Rightarrow> 32 word \<times> 32 word \<Rightarrow> (32 word \<times> 32 word) prog" where
  "process_files cl b [] counts = ret counts"
| "process_files cl b (f # fs) counts =
     bindP (importFile cl b f) (\<lambda>err.
       case err of
         Some e \<Rightarrow> process_files cl b fs (fst counts, snd counts + 1)
       | None \<Rightarrow> process_files cl b fs (fst counts + 1, snd counts))"

text \<open>\<open>processBatch\<close> returns \<open>(success, failed, nil)\<close>.\<close>

definition processBatch :: "cluster \<Rightarrow> Batcher \<Rightarrow> Batch \<Rightarrow> (int \<times> int \<times> error option) prog" where
  "processBatch cl b batch =
     (if concurrency b < 0 then (\<lambda>w. Panicked)
      else if Files batch \<noteq> [] \<and> concurrency b = 0 then (\<lambda>w. Blocked)
      else bindP (process_files cl b (Files batch) (0, 0))
             (\<lambda>counts. ret (sint (fst counts), sint (snd counts), None)))"

text \<open>
  One iteration of the loop of \<open>ProcessBatches\<close>: \<open>Inl\<close> is the early
  \<open>return nil, err\<close>, \<open>Inr\<close> the slice \<open>batches\<close> after the \<open>append\<close>.
\<close>

definition process_iter :: "cluster \<Rightarrow> Batcher \<Rightarrow> string list \<Rightarrow> int \<Rightarrow> Batch list \<Rightarrow> (error + Batch list) prog" where
  "process_iter cl b files i bs =
     (let totalFiles = len files;
          end = (if i + batchSize b > totalFiles then totalFiles else i + batchSize b)
      in bindP (liftR (slice files i end)) (\<lambda>batchFiles.
           if batchSize b = 0 then (\<lambda>w. Panicked)
           else
             let batch = \<lparr>Number = i sdiv batchSize b + 1, Files = batchFiles,
                           Processed = 0, Success = 0, Failed = 0\<rparr>
             in bindP (processBatch cl b batch) (\<lambda>(success, failed, err).
                  case err of
                    Some e \<Rightarrow> ret (Inl (Wrap ''batch failed'' e))
                  | None \<Rightarrow>
                      bindP (if i + batchSize b < totalFiles \<and> BatchPause (ImportConf (config b))
                             then sleep_seconds (BatchDelay (ImportConf (config b))) else ret ())
                        (\<lambda>u. ret (Inr (bs @ [batch\<lparr>Success := success, Failed := failed,
                                                    Processed := len batchFiles\<rparr>]))))))"

lemma process_iter_returns_positive:
  "process_iter cl b files i bs w = Returned r \<Longrightarrow> i < len files \<Longrightarrow> 0 < batchSize b"
  by (cases "batchSize b < 0")
     (auto simp: process_iter_def Let_def bindP_def liftR_def slice_def split: if_splits run.splits)

function process_loop :: "cluster \<Rightarrow> Batcher \<Rightarrow> string list \<Rightarrow> int \<Rightarrow> Batch list \<Rightarrow> (Batch list \<times> error option) prog" where
  "process_loop cl b files i bs w =
     (if i < len files
      then (case process_iter cl b files i bs w of
              Returned r \<Rightarrow>
                (case fst r of
                   Inl e \<Rightarrow> Returned (([], Some e), snd r)
                 | Inr bs' \<Rightarrow> process_loop cl b files (i + batchSize b) bs' (snd r))
            | Panicked \<Rightarrow> Panicked
            | Blocked \<Rightarrow> Blocked)
      else Returned ((bs, None), w))"
  by pat_completeness auto
termination
proof (relation "measure (\<lambda>(cl, b, files, i, bs, w). nat (len files - i))")
  show "wf (measure (\<lambda>(cl, b, files, i, bs, w). nat (len files - i)))" by simp
next
  fix cl :: cluster and b :: Batcher and files :: "string list" and i :: int
    and bs :: "Batch list" and w :: world and r :: "(error + Batch list) \<times> world"
    and bs' :: "Batch list"
  assume a: "i < len files" and c: "process_iter cl b files i bs w = Returned r"
  have "0 < batchSize b"
    using process_iter_returns_positive [OF c a] .
  with a show "((cl, b, files, i + batchSize b, bs', snd r), cl, b, files, i, bs, w)
      \<in> measure (\<lambda>(cl, b, files, i, bs, w). nat (len files - i))"
    by simp
qed

text \<open>
  \<open>ProcessBatches\<close>: \<open>totalBatches := (totalFiles + b.batchSize - 1) / b.batchSize\<close> is
  Go's truncating division and panics on zero; the sum wraps around for a batch size close
  to the largest \<open>int\<close>; \<open>make([]*Batch, 0, totalBatches)\<close> panics on a negative
  capacity.
\<close>

definition ProcessBatches :: "cluster \<Rightarrow> Batcher \<Rightarrow> string list \<Rightarrow> (Batch list \<times> error option) prog" where
  "ProcessBatches cl b files =
     (if batchSize b = 0 then (\<lambda>w. Panicked)
      else if wrap64 (wrap64 (len files + batchSize b - 1) sdiv batchSize b) < 0 then (\<lambda>w. Panicked)
      else process_loop cl b files 0 [])"

section \<open>The restore pipeline: IoTDBRestorer\<close>

text \<open>
  \<open>RestoreOptions\<close> and \<open>RestoreResult\<close> (without the times and the duration). The
  struct \<open>IoTDBRestorer\<close> holds the executor, which is part of the world, the
  configuration, and the result under construction, which the model passes along.
\<close>

record RestoreOptions =
  Timestamp :: string
  DryRun :: bool
  SkipDelete :: bool

record RestoreResult =
  TotalFiles :: int
  SuccessCount :: int
  FailedCount :: int
  BackupFile :: string
  Timestamp :: string
  Error :: "error option"

text \<open>
  \<open>splitLines\<close>: the loop \<open>for i := 0; i < len(s); i++\<close> with the variables \<open>start\<close>
  and \<open>lines\<close>, then the rest of the string when \<open>start < len(s)\<close>.
\<close>

function splitLines_loop :: "string \<Rightarrow> int \<Rightarrow> int \<Rightarrow> string list \<Rightarrow> string list run" where
  "splitLines_loop s i start lines =
     (if i < len s
      then (if s ! nat i = CHR 0x0A
            then run_bind (slice s start i)
                   (\<lambda>line. splitLines_loop s (i + 1) (i + 1) (lines @ [line]))
            else splitLines_loop s (i + 1) start lines)
      else (if start < len s
            then run_bind (slice s start (len s)) (\<lambda>line. Returned (lines @ [line]))
            else Returned lines))"
  by pat_completeness auto
termination
  by (relation "measure (\<lambda>(s, i, start, lines). nat (len s - i))") auto

definition splitLines :: "string \<Rightarrow> string list run" where
  "splitLines s = (if s = [] then Returned [] else splitLines_loop s 0 0 [])"

definition parseFileList :: "string \<Rightarrow> string list run" where
  "parseFileList output =
     run_bind (splitLines output) (\<lambda>lines. Returned (filter (\<lambda>line. line \<noteq> []) lines))"

text \<open>
  \<open>filepath.Join("/tmp", backupFile)\<close>, for a file name that needs no cleaning (no
  separator and no dot segment in it).
\<close>

definition tmp_path :: "string \<Rightarrow> string" where
  "tmp_path backupFile = ''/tmp/'' @ backupFile"

definition download_command :: "Config \<Rightarrow> string \<Rightarrow> string" where
  "download_command cfg backupFile =
     ''wget -q -O /tmp/'' @ backupFile @ '' '' @ sq @ BaseURL (Backup cfg) @ ''/'' @ backupFile @ sq"

text \<open>\<open>downloadBackup\<close> returns its error.\<close>

definition downloadBackup :: "cluster \<Rightarrow> Config \<Rightarrow> string \<Rightarrow> error option prog" where
  "downloadBackup cl cfg backupFile =
     bindP (FileExists cl (tmp_path backupFile)) (\<lambda>(exists, err).
       case err of
         Some e \<Rightarrow> ret (Some e)
       | None \<Rightarrow>
           if exists then ret None
           else bindP (Exec cl [''sh'', ''-c'', download_command cfg backupFile])
                  (\<lambda>(stdout, stderr, err).
                     case err of
                       Some e \<Rightarrow> ret (Some (Wrap (''download failed: '' @ stderr) e))
                     | None \<Rightarrow> ret None))"

definition backup_command :: "Config \<Rightarrow> string" where
  "backup_command cfg =
     ''[ -d '' @ DataDir (IoTDB cfg) @ ''/backup_before_restore ] && mv '' @ DataDir (IoTDB cfg)
       @ ''/backup_before_restore '' @ DataDir (IoTDB cfg)
       @ ''/backup_before_restore_old_$(date +%s) || true''"

definition extract_command :: "Config \<Rightarrow> string \<Rightarrow> string" where
  "extract_command cfg backupFile =
     ''tar --overwrite -xzf /tmp/'' @ backupFile @ '' -C '' @ DataDir (IoTDB cfg) @ ''/''"

definition list_command :: "Config \<Rightarrow> string" where
  "list_command cfg = ''find '' @ DataDir (IoTDB cfg) @ '' -type f | head -20''"

text \<open>
  \<open>extractBackup\<close>: the error of the command that moves an earlier data directory aside is
  only logged, the error of \<open>tar\<close> is returned, the listing afterwards is only logged.
\<close>

definition extractBackup :: "cluster \<Rightarrow> Config \<Rightarrow> string \<Rightarrow> error option prog" where
  "extractBackup cl cfg backupFile =
     bindP (Exec cl [''sh'', ''-c'', backup_command cfg]) (\<lambda>moved.
     bindP (Exec cl [''sh'', ''-c'', extract_command cfg backupFile]) (\<lambda>(stdout, stderr, err).
       case err of
         Some e \<Rightarrow> ret (Some (Wrap (''extraction failed: '' @ stderr) e))
       | None \<Rightarrow> bindP (ExecSimple cl (list_command cfg)) (\<lambda>listed. ret None)))"

definition delete_command :: "Config \<Rightarrow> string \<Rightarrow> string" where
  "delete_command cfg db =
     CLIPath (IoTDB cfg) @ '' -h '' @ Host (IoTDB cfg) @ '' -e '' @ dq @ ''delete database '' @ db @ dq
       @ '' 2>/dev/null || echo '' @ sq @ ''Database '' @ db @ '' does not exist'' @ sq"

definition flush_command :: "Config \<Rightarrow> string" where
  "flush_command cfg =
     CLIPath (IoTDB cfg) @ '' -h '' @ Host (IoTDB cfg) @ '' -e '' @ dq @ ''flush'' @ dq"

text \<open>
  \<open>deleteDatabases\<close>: one command for each of the two databases, then the flush; every
  error is logged, and the function returns nil.
\<close>

fun delete_each :: "cluster \<Rightarrow> Config \<Rightarrow> string list \<Rightarrow> unit prog" where
  "delete_each cl cfg [] = ret ()"
| "delete_each cl cfg (db # dbs) =
     bindP (Exec cl [''sh'', ''-c'', delete_command cfg db]) (\<lambda>deleted. delete_each cl cfg dbs)"

definition deleteDatabases :: "cluster \<Rightarrow> Config \<Rightarrow> error option prog" where
  "deleteDatabases cl cfg =
     bindP (delete_each cl cfg [''root.emsplus'', ''root.energy'']) (\<lambda>u.
     bindP (Exec cl [''sh'', ''-c'', flush_command cfg]) (\<lambda>flushed. ret None))"

text \<open>
  Step 3 of \<open>Restore\<close>: unless \<open>SkipDelete\<close> is set, \<open>deleteDatabases\<close>, whose error
  would only be logged.
\<close>

definition delete_phase :: "cluster \<Rightarrow> Config \<Rightarrow> RestoreOptions \<Rightarrow> unit prog" where
  "delete_phase cl cfg opts =
     (if \<not> SkipDelete opts then bindP (deleteDatabases cl cfg) (\<lambda>err. ret ()) else ret ())"

definition find_command :: "Config \<Rightarrow> string" where
  "find_command cfg =
     ''find '' @ DataDir (IoTDB cfg) @ ''/iotdb/data/datanode -name '' @ sq @ ''*.tsfile'' @ sq
       @ '' -type f''"

text \<open>
  \<open>importTsFiles\<close> returns \<open>(nil, err)\<close> or \<open>(result, nil)\<close>: the listing, the test
  \<open>output == ""\<close>, then \<open>parseFileList\<close> and \<open>Import\<close>.
\<close>

definition importTsFiles :: "cluster \<Rightarrow> Config \<Rightarrow> (ImportResult option \<times> error option) prog" where
  "importTsFiles cl cfg =
     bindP (Exec cl [''sh'', ''-c'', find_command cfg]) (\<lambda>(output, stderr, err).
       case err of
         Some e \<Rightarrow> ret (None, Some (Wrap (''finding tsfile files failed: '' @ stderr) e))
       | None \<Rightarrow>
           if output = [] then ret (None, Some (Err ''no tsfile file found''))
           else bindP (liftR (parseFileList output)) (\<lambda>files.
                bindP (Import cl cfg files) (\<lambda>(result, err).
                  case err of
                    Some e \<Rightarrow> ret (None, Some e)
                  | None \<Rightarrow> ret (Some result, None))))"

definition cleanup_command :: "string \<Rightarrow> string" where
  "cleanup_command backupFile = ''rm -f /tmp/'' @ backupFile"

definition cleanup :: "cluster \<Rightarrow> string \<Rightarrow> unit prog" where
  "cleanup cl backupFile =
     bindP (Exec cl [''sh'', ''-c'', cleanup_command backupFile]) (\<lambda>removed. ret ())"

definition dryRun :: "RestoreResult \<Rightarrow> (RestoreResult \<times> error option) prog" where
  "dryRun result = ret (result, None)"

definition backup_file_name :: "Config \<Rightarrow> RestoreOptions \<Rightarrow> string" where
  "backup_file_name cfg opts =
     ''emsau_'' @ PodName (Kubernetes cfg) @ ''_'' @ RestoreOptions.Timestamp opts @ ''.tar.gz''"

text \<open>
  \<open>Restore\<close> returns \<open>(r.result, err)\<close>. A nil \<open>importResult\<close> next to a nil error would
  make \<open>importResult.TotalFiles\<close> panic.
\<close>

definition Restore :: "cluster \<Rightarrow> Config \<Rightarrow> RestoreOptions \<Rightarrow> (RestoreResult \<times> error option) prog" where
  "Restore cl cfg opts =
     (let result = \<lparr>TotalFiles = 0, SuccessCount = 0, FailedCount = 0, BackupFile = [],
                     Timestamp = RestoreOptions.Timestamp opts, Error = None\<rparr>
      in if DryRun opts then dryRun result
         else
           let backupFile = backup_file_name cfg opts;
               result = result\<lparr>BackupFile := backupFile\<rparr>
           in bindP (downloadBackup cl cfg backupFile) (\<lambda>err.
                case err of
                  Some e \<Rightarrow> ret (result\<lparr>Error := Some e\<rparr>, Some (Wrap ''downloading the backup failed'' e))
                | None \<Rightarrow>
                bindP (extractBackup cl cfg backupFile) (\<lambda>err.
                  case err of
                    Some e \<Rightarrow> ret (result\<lparr>Error := Some e\<rparr>, Some (Wrap ''extracting the backup failed'' e))
                  | None \<Rightarrow>
                  bindP (delete_phase cl cfg opts) (\<lambda>u.
                  bindP (importTsFiles cl cfg) (\<lambda>(importResult, err).
                    case err of
                      Some e \<Rightarrow> ret (result\<lparr>Error := Some e\<rparr>, Some (Wrap ''importing tsfile files failed'' e))
                    | None \<Rightarrow>
                        (case importResult of
                           None \<Rightarrow> (\<lambda>w. Panicked)
                         | Some ir \<Rightarrow>
                             bindP (cleanup cl backupFile) (\<lambda>u.
                               ret (result\<lparr>TotalFiles := ImportResult.TotalFiles ir,
                                           SuccessCount := ImportResult.SuccessCount ir,
                                           FailedCount := ImportResult.FailedCount ir\<rparr>, None))))))))"

section \<open>pkg/downloader: the local machine and the artifact store\<close>

text \<open>
  The downloader works on the machine the tool runs on: its files (path and content, at most
  one entry for a path), the directories that have been created, and a record of what it did
  that can be observed from outside, in order: a GET request sent, a HEAD request sent, a
  sleep (a \<open>time.Duration\<close>).
\<close>

datatype io_event = HttpGet string | HttpHead string | Slept int

record host =
  disk :: "(string \<times> string) list"
  directories :: "string list"
  events :: "io_event list"

text \<open>
  A response: the status code, \<open>ContentLength\<close> (also what the \<open>Content-Length\<close> header
  parses to; -1 when unknown), the pieces of the body in the order \<open>Read\<close> delivers them,
  and the error that ends the body, if any.
\<close>

record http_response =
  status :: int
  content_length :: int
  body :: "string list"
  body_err :: "error option"

datatype http_reply = Transport error | Reply http_response

text \<open>
  What the program does not decide. \<open>filepath_Dir\<close> and \<open>new_request\<close>
  (\<open>http.NewRequestWithContext\<close>, by method and URL) are library functions. The other
  answers may depend on everything observed so far: \<open>http_do\<close> answers the request that
  is last in the events, \<open>mkdir_error\<close> is the error of creating a directory that does
  not exist, \<open>create_error\<close> the error of \<open>os.Create\<close>, \<open>write_error\<close> the error of
  the k-th write to the destination file together with the number of bytes that write still
  wrote, and \<open>tardy\<close> tells whether more than five seconds have passed since the last
  progress line when the k-th write happens.
\<close>

record net_env =
  filepath_Dir :: "string \<Rightarrow> string"
  new_request :: "string \<Rightarrow> string \<Rightarrow> error option"
  http_do :: "io_event list \<Rightarrow> http_reply"
  mkdir_error :: "io_event list \<Rightarrow> string \<Rightarrow> error option"
  create_error :: "io_event list \<Rightarrow> string \<Rightarrow> error option"
  write_error :: "io_event list \<Rightarrow> nat \<Rightarrow> (error \<times> nat) option"
  tardy :: "io_event list \<Rightarrow> nat \<Rightarrow> bool"

record OSSDownloader =
  maxRetries :: int
  retryDelay :: int

definition NewOSSDownloader :: OSSDownloader where
  "NewOSSDownloader = \<lparr>maxRetries = 3, retryDelay = 5000000000\<rparr>"

definition observe :: "io_event \<Rightarrow> host \<Rightarrow> host" where
  "observe e h = h\<lparr>events := events h @ [e]\<rparr>"

text \<open>
  A directory exists when it has been created or holds a file. \<open>os.MkdirAll\<close> returns nil
  for a directory that exists; \<open>os.Stat\<close> succeeds on a file and on a directory.
  \<open>os.Remove\<close> takes the file away; its error is ignored by the caller, and removing a
  file that the same call has created a moment ago in a directory it could write to is taken
  to succeed.
\<close>

definition dir_exists :: "net_env \<Rightarrow> host \<Rightarrow> string \<Rightarrow> bool" where
  "dir_exists env h dir =
     (dir \<in> set (directories h) \<or> dir \<in> set (map (\<lambda>entry. filepath_Dir env (fst entry)) (disk h)))"

definition os_MkdirAll :: "net_env \<Rightarrow> string \<Rightarrow> host \<Rightarrow> error option \<times> host" where
  "os_MkdirAll env dir h =
     (if dir_exists env h dir then (None, h)
      else (case mkdir_error env (events h) dir of
              Some e \<Rightarrow> (Some e, h)
            | None \<Rightarrow> (None, h\<lparr>directories := dir # directories h\<rparr>)))"

definition os_Stat_ok :: "net_env \<Rightarrow> host \<Rightarrow> string \<Rightarrow> bool" where
  "os_Stat_ok env h path = (map_of (disk h) path \<noteq> None \<or> dir_exists env h path)"

definition remove_file :: "string \<Rightarrow> host \<Rightarrow> host" where
  "remove_file path h = h\<lparr>disk := filter (\<lambda>entry. fst entry \<noteq> path) (disk h)\<rparr>"

definition write_file :: "string \<Rightarrow> string \<Rightarrow> host \<Rightarrow> host" where
  "write_file path content h =
     h\<lparr>disk := (path, content) # filter (\<lambda>entry. fst entry \<noteq> path) (disk h)\<rparr>"

text \<open>
  \<open>os.Create\<close> makes the file, empty, or empties the file that is there; when it fails
  nothing changes. A \<open>Write\<close> to the open file puts the bytes after those written before.
\<close>

definition os_Create :: "net_env \<Rightarrow> string \<Rightarrow> host \<Rightarrow> error option \<times> host" where
  "os_Create env path h =
     (case create_error env (events h) path of
        Some e \<Rightarrow> (Some e, h)
      | None \<Rightarrow> (None, write_file path [] h))"

definition file_content :: "host \<Rightarrow> string \<Rightarrow> string" where
  "file_content h path = (case map_of (disk h) path of Some content \<Rightarrow> content | None \<Rightarrow> [])"

definition append_file :: "string \<Rightarrow> string \<Rightarrow> host \<Rightarrow> host" where
  "append_file path bytes h = write_file path (file_content h path @ bytes) h"

text \<open>
  \<open>io.Copy\<close> into the \<open>progressWriter\<close>, one \<open>Write\<close> for each non-empty piece of the
  body. \<open>Write\<close> passes the piece to the file, returns at once if that failed, adds the
  length to \<open>written\<close>, and decides whether to log with
  \<open>now.Sub(pw.lastLog) > 5*time.Second || pw.total > 0 && pw.written % (pw.total/10) < int64(len(p))\<close>.
  \<open>lastLog\<close> is the zero time until the first line is logged, so the first write always
  logs; on a later write that is not tardy, a total between 1 and 9 makes \<open>pw.total/10\<close>
  zero and the remainder panics. The result is the error of the copy, if it failed: the
  error of a write, or the error that ends the body. The bytes written stay in the file.
\<close>

fun copy_body :: "net_env \<Rightarrow> string \<Rightarrow> int \<Rightarrow> nat \<Rightarrow> string list \<Rightarrow> host
                    \<Rightarrow> (error option \<times> host) run" where
  "copy_body env path pw_total k [] h = Returned (None, h)"
| "copy_body env path pw_total k (p # ps) h =
     (if p = [] then copy_body env path pw_total k ps h
      else (case write_error env (events h) k of
              Some (e, n) \<Rightarrow> Returned (Some e, append_file path (take n p) h)
            | None \<Rightarrow>
                if k = 0 \<or> tardy env (events h) k
                then copy_body env path pw_total (Suc k) ps (append_file path p h)
                else if pw_total > 0 \<and> pw_total div 10 = 0 then Panicked
                else copy_body env path pw_total (Suc k) ps (append_file path p h)))"

definition io_Copy :: "net_env \<Rightarrow> string \<Rightarrow> http_response \<Rightarrow> host \<Rightarrow> (error option \<times> host) run" where
  "io_Copy env path resp h =
     run_bind (copy_body env path (content_length resp) 0 (body resp) h)
       (\<lambda>(err, h1).
          case err of
            Some e \<Rightarrow> Returned (Some e, h1)
          | None \<Rightarrow> Returned (body_err resp, h1))"

text \<open>
  One pass through the body of the retry loop, after the sleep: \<open>Retry e\<close> is
  \<open>lastErr = e; continue\<close>, \<open>Stop r\<close> is \<open>return r\<close>. After a failed copy the file,
  with what was written of it, is removed.
\<close>

datatype attempt_end = Retry error | Stop "error option"

definition attempt :: "net_env \<Rightarrow> string \<Rightarrow> string \<Rightarrow> host \<Rightarrow> (attempt_end \<times> host) run" where
  "attempt env url destPath h =
     (case new_request env ''GET'' url of
        Some e \<Rightarrow> Returned (Retry (Wrap ''creating the request failed'' e), h)
      | None \<Rightarrow>
          (let h1 = observe (HttpGet url) h in
           case http_do env (events h1) of
             Transport e \<Rightarrow> Returned (Retry (Wrap ''request failed'' e), h1)
           | Reply resp \<Rightarrow>
               if status resp \<noteq> 200 then Returned (Retry (Err ''server returned an error status''), h1)
               else (case os_Create env destPath h1 of
                       (Some e, h2) \<Rightarrow>
                         Returned (Stop (Some (Wrap ''creating the destination file failed'' e)), h2)
                     | (None, h2) \<Rightarrow>
                         run_bind (io_Copy env destPath resp h2) (\<lambda>(err, h3).
                           case err of
                             Some e \<Rightarrow>
                               Returned (Retry (Wrap ''downloading the file failed'' e),
                                         remove_file destPath h3)
                           | None \<Rightarrow> Returned (Stop None, h3)))))"

text \<open>
  The loop \<open>for attempt := 0; attempt < d.maxRetries; attempt++\<close> with its variable
  \<open>lastErr\<close>; after the loop the error wraps \<open>lastErr\<close>.
\<close>

function retry_loop :: "OSSDownloader \<Rightarrow> net_env \<Rightarrow> string \<Rightarrow> string \<Rightarrow> int \<Rightarrow> error option \<Rightarrow> host
                          \<Rightarrow> (error option \<times> host) run" where
  "retry_loop d env url destPath n lastErr h =
     (if n < maxRetries d
      then (let h0 = (if n > 0 then observe (Slept (retryDelay d)) h else h) in
            case attempt env url destPath h0 of
              Returned (Retry e, h1) \<Rightarrow> retry_loop d env url destPath (n + 1) (Some e) h1
            | Returned (Stop r, h1) \<Rightarrow> Returned (r, h1)
            | Panicked \<Rightarrow> Panicked
            | Blocked \<Rightarrow> Blocked)
      else Returned (Some (case lastErr of
                             Some e \<Rightarrow> Wrap ''download failed, giving up after the retries'' e
                           | None \<Rightarrow> Err ''download failed, giving up after the retries''), h))"
  by pat_completeness auto
termination
  by (relation "measure (\<lambda>(d, env, url, destPath, n, lastErr, h). nat (maxRetries d - n))") auto

definition DownloadWithProgress :: "OSSDownloader \<Rightarrow> net_env \<Rightarrow> string \<Rightarrow> string \<Rightarrow> host
                                      \<Rightarrow> (error option \<times> host) run" where
  "DownloadWithProgress d env url destPath h =
     (case os_MkdirAll env (filepath_Dir env destPath) h of
        (Some e, h1) \<Rightarrow> Returned (Some (Wrap ''creating the target directory failed'' e), h1)
      | (None, h1) \<Rightarrow>
          if os_Stat_ok env h1 destPath then Returned (None, h1)
          else retry_loop d env url destPath 0 None h1)"

definition Download :: "OSSDownloader \<Rightarrow> net_env \<Rightarrow> string \<Rightarrow> string \<Rightarrow> host
                          \<Rightarrow> (error option \<times> host) run" where
  "Download d env url destPath h = DownloadWithProgress d env url destPath h"

text \<open>\<open>Exists\<close> returns \<open>(exists, size, err)\<close>.\<close>

definition Exists :: "net_env \<Rightarrow> string \<Rightarrow> host \<Rightarrow> (bool \<times> int \<times> error option) \<times> host" where
  "Exists env url h =
     (case new_request env ''HEAD'' url of
        Some e \<Rightarrow> ((False, 0, Some (Wrap ''creating the request failed'' e)), h)
      | None \<Rightarrow>
          (let h1 = observe (HttpHead url) h in
           case http_do env (events h1) of
             Transport e \<Rightarrow> ((False, 0, Some (Wrap ''request failed'' e)), h1)
           | Reply resp \<Rightarrow>
               if status resp = 200 then ((True, content_length resp, None), h1)
               else if status resp = 404 then ((False, 0, None), h1)
               else ((False, 0, Some (Err ''server returned an error status'')), h1)))"

text \<open>
  What one pass of the retry loop adds to the events when it ends in a retry: the sleep
  before every attempt but the first, and the GET unless the request could not be built.
\<close>

definition gets :: "net_env \<Rightarrow> string \<Rightarrow> io_event list" where
  "gets env url = (if new_request env ''GET'' url = None then [HttpGet url] else [])"

definition attempt_events :: "OSSDownloader \<Rightarrow> net_env \<Rightarrow> string \<Rightarrow> int \<Rightarrow> io_event list" where
  "attempt_events d env url k = (if k > 0 then [Slept (retryDelay d)] else []) @ gets env url"

section \<open>pkg/downloader/detector.go: DetectTimestamp\<close>

text \<open>\<open>fmt.Sprintf("%02d", n)\<close>: decimal, padded with zeros to two characters.\<close>

fun decimal :: "nat \<Rightarrow> string" where
  "decimal n = (if n < 10 then [char_of (48 + n)] else decimal (n div 10) @ [char_of (48 + n mod 10)])"

definition fmt_02d :: "int \<Rightarrow> string" where
  "fmt_02d n =
     (if n < 0 then ''-'' @ decimal (nat (- n))
      else if n < 10 then ''0'' @ decimal (nat n)
      else decimal (nat n))"

text \<open>
  The candidate of one second: \<open>hour\<close> is \<open>time.Now().Format("2006010215")\<close>, the
  minute is the constant 35.
\<close>

definition candidate_timestamp :: "string \<Rightarrow> int \<Rightarrow> string" where
  "candidate_timestamp hour second = hour @ ''35'' @ fmt_02d second"

definition candidate_url :: "string \<Rightarrow> string \<Rightarrow> string \<Rightarrow> int \<Rightarrow> string" where
  "candidate_url baseURL pod hour second =
     baseURL @ ''/'' @ ''emsau_'' @ pod @ ''_'' @ candidate_timestamp hour second @ ''.tar.gz''"

text \<open>
  The loop \<open>for second := 1; second <= 10; second++\<close>: an error of the probe is logged
  and the loop continues; the first candidate that exists is returned.
\<close>

function detect_loop :: "net_env \<Rightarrow> string \<Rightarrow> string \<Rightarrow> string \<Rightarrow> int \<Rightarrow> host
                           \<Rightarrow> (string \<times> error option) \<times> host" where
  "detect_loop env hour baseURL pod second h =
     (if second \<le> 10
      then (case Exists env (candidate_url baseURL pod hour second) h of
              ((found, sz, err), h1) \<Rightarrow>
                (case err of
                   Some e \<Rightarrow> detect_loop env hour baseURL pod (second + 1) h1
                 | None \<Rightarrow>
                     if found then ((candidate_timestamp hour second, None), h1)
                     else detect_loop env hour baseURL pod (second + 1) h1))
      else (([], Some (Err ''no matching backup file found'')), h))"
  by pat_completeness auto
termination
  by (relation "measure (\<lambda>(env, hour, baseURL, pod, second, h). nat (11 - second))") auto

definition DetectTimestamp :: "net_env \<Rightarrow> string \<Rightarrow> string \<Rightarrow> string \<Rightarrow> host
                                 \<Rightarrow> (string \<times> error option) \<times> host" where
  "DetectTimestamp env hour baseURL pod h = detect_loop env hour baseURL pod 1 h"

text \<open>
  Whether the probe of a URL in a given state of the local machine reports that the artifact
  exists (\<open>err == nil\<close> and \<open>exists\<close>), and the state after probing a list of URLs one
  after the other.
\<close>

definition probe_hit :: "net_env \<Rightarrow> string \<Rightarrow> host \<Rightarrow> bool" where
  "probe_hit env url h = (case Exists env url h of ((found, sz, err), h1) \<Rightarrow> err = None \<and> found)"

definition probed :: "net_env \<Rightarrow> string list \<Rightarrow> host \<Rightarrow> host" where
  "probed env urls h = foldl (\<lambda>h1 url. snd (Exists env url h1)) h urls"


section \<open>The partition the specification describes\<close>

text \<open>
  The specification's partition of a manifest into consecutive batches of a fixed size, the
  last one possibly shorter. The loops of \<open>Import\<close> and \<open>ProcessBatches\<close> are compared
  with it.
\<close>

function chunks :: "nat \<Rightarrow> 'a list \<Rightarrow> 'a list list" where
  "chunks n xs = (if n = 0 \<or> xs = [] then [] else take n xs # chunks n (drop n xs))"
  by pat_completeness auto
termination
  by (relation "measure (\<lambda>(n, xs). length xs)") auto

declare chunks.simps [simp del]

section \<open>The listing of the data files\<close>

text \<open>
  What \<open>find start -name '*.tsfile' -type f\<close> writes to its standard output: one line for
  each file it found, the path of the file and a newline, and every path is the start
  directory as given on the command line followed by the rest of the path. The start
  directory of the listing command is the data directory followed by
  \<open>/iotdb/data/datanode\<close>.
\<close>

definition start_directory :: "Config \<Rightarrow> string" where
  "start_directory cfg = DataDir (IoTDB cfg) @ ''/iotdb/data/datanode''"

definition find_prints :: "string \<Rightarrow> string list \<Rightarrow> string" where
  "find_prints start names = concat (map (\<lambda>name. start @ name @ [CHR 0x0A]) names)"

text \<open>
  Two notions for the proofs about \<open>splitLines\<close>: a list of lines holds a line that is not
  empty; a string holds, at position \<open>i\<close> or later, a character that is not a newline.
\<close>

definition has_line :: "string list \<Rightarrow> bool" where
  "has_line ls = (\<exists>l\<in>set ls. l \<noteq> [])"

definition has_char :: "string \<Rightarrow> int \<Rightarrow> bool" where
  "has_char s i = (\<exists>c\<in>set (drop (nat i) s). c \<noteq> CHR 0x0A)"

section \<open>Sample inputs\<close>

text \<open>
  A new executor in a world without calls, and a cluster whose first request fails and which
  answers every later one.
\<close>

definition ok_reply :: stream_reply where
  "ok_reply = \<lparr>out = ''done'', errout = [], stream_err = None,
                deadline_exceeded = False, accessor = None\<rparr>"

definition flaky_cluster :: cluster where
  "flaky_cluster =
     \<lparr>get_reply = (\<lambda>cs. if length cs \<le> 1 then Inl (Err ''connection refused'') else Inr [''iotdb'']),
      new_spdy = (\<lambda>cs. None),
      exec_reply = (\<lambda>cs. ok_reply)\<rparr>"

definition fresh_world :: world where
  "fresh_world = \<lparr>exe = NewExecutor ''ems'' ''iotdb-0'', calls = []\<rparr>"

text \<open>
  A configuration with batches of three files and two concurrent imports, a manifest of seven
  files, and a cluster that loads every file except \<open>f4\<close>.
\<close>

definition demo_config :: Config where
  "demo_config =
     \<lparr>Kubernetes = \<lparr>Namespace = ''ems'', PodName = ''iotdb-0'', KubeConfigPath = [], Context = []\<rparr>,
      IoTDB = \<lparr>DataDir = ''/iotdb/data'', CLIPath = ''/iotdb/sbin/start-cli.sh'',
               Host = ''iotdb-datanode'', Port = 6667, Username = ''root'', Password = ''root''\<rparr>,
      Backup = \<lparr>BaseURL = ''https://oss.example/backup'', DownloadDir = ''/tmp'',
                AutoDetectTimestamp = False, TimestampPattern = []\<rparr>,
      ImportConf = \<lparr>Concurrency = 2, BatchSize = 3, RetryCount = 3, BatchDelay = 3,
                    BatchPause = True\<rparr>\<rparr>"

definition seven_files :: "string list" where
  "seven_files = [''f1'', ''f2'', ''f3'', ''f4'', ''f5'', ''f6'', ''f7'']"

definition loaded_reply :: stream_reply where
  "loaded_reply = \<lparr>out = ''Msg: The statement is executed successfully.'', errout = [],
                    stream_err = None, deadline_exceeded = False, accessor = None\<rparr>"

definition rejected_reply :: stream_reply where
  "rejected_reply = \<lparr>out = [], errout = ''Msg: 301: file is broken'',
                      stream_err = None, deadline_exceeded = False, accessor = None\<rparr>"

definition picky_cluster :: cluster where
  "picky_cluster =
     \<lparr>get_reply = (\<lambda>cs. Inr [''iotdb'']),
      new_spdy = (\<lambda>cs. None),
      exec_reply = (\<lambda>cs. if last cs = PodExec ''ems'' ''iotdb-0'' ''iotdb''
                                             [''sh'', ''-c'', load_command demo_config ''f4'']
                           then rejected_reply else loaded_reply)\<rparr>"

text \<open>
  A cluster that resolves the container and answers the streamed commands from a script, one
  reply for each command in the order they arrive (the first call is the Pods.Get).
\<close>

definition failed_reply :: stream_reply where
  "failed_reply = \<lparr>out = [], errout = ''denied'', stream_err = Some (Err ''exit status 1''),
                    deadline_exceeded = False, accessor = None\<rparr>"

definition scripted_cluster :: "stream_reply list \<Rightarrow> cluster" where
  "scripted_cluster script =
     \<lparr>get_reply = (\<lambda>cs. Inr [''iotdb'']),
      new_spdy = (\<lambda>cs. None),
      exec_reply = (\<lambda>cs. if length cs - 2 < length script then script ! (length cs - 2)
                           else failed_reply)\<rparr>"

definition demo_options :: RestoreOptions where
  "demo_options = \<lparr>RestoreOptions.Timestamp = ''20240101103501'', DryRun = False, SkipDelete = False\<rparr>"

definition demo_file :: string where
  "demo_file = backup_file_name demo_config demo_options"

definition two_lines :: string where
  "two_lines = ''/d/a'' @ [CHR 0x0A] @ ''/d/b'' @ [CHR 0x0A]"

definition listing_reply :: stream_reply where
  "listing_reply = \<lparr>out = two_lines, errout = [],
                     stream_err = None, deadline_exceeded = False, accessor = None\<rparr>"

text \<open>
  Every best-effort command of the pipeline fails (moving the old data directory aside, the
  listing after the extraction, both deletions, the flush, the memory probe and the removal
  of the archive), while the download, the extraction, the discovery of two files and their
  loads succeed.
\<close>

definition grumpy_cluster :: cluster where
  "grumpy_cluster =
     scripted_cluster
       [ok_reply, ok_reply,
        failed_reply, ok_reply, failed_reply,
        failed_reply, failed_reply, failed_reply,
        listing_reply, failed_reply, loaded_reply, loaded_reply,
        failed_reply]"

text \<open>The world after the given shell commands have been run in the resolved container.\<close>

definition sh_call :: "string \<Rightarrow> call" where
  "sh_call cmd = PodExec ''ems'' ''iotdb-0'' ''iotdb'' [''sh'', ''-c'', cmd]"

definition world_after :: "string list \<Rightarrow> world" where
  "world_after cmds =
     \<lparr>exe = \<lparr>namespace = ''ems'', podName = ''iotdb-0'', container = ''iotdb''\<rparr>,
      calls = PodsGet ''ems'' ''iotdb-0'' # map sh_call cmds\<rparr>"

definition download_commands :: "string list" where
  "download_commands = [exists_command (tmp_path demo_file), download_command demo_config demo_file]"

definition extract_commands :: "string list" where
  "extract_commands =
     [backup_command demo_config, extract_command demo_config demo_file, list_command demo_config]"

definition delete_commands :: "string list" where
  "delete_commands =
     [delete_command demo_config ''root.emsplus'', delete_command demo_config ''root.energy'',
      flush_command demo_config]"



text \<open>
  A cluster in which every command before the listing of the data files succeeds and the
  listing is answered by the given reply, and the reply of a listing that finds no file.
\<close>

definition silent_reply :: stream_reply where
  "silent_reply = \<lparr>out = [], errout = [], stream_err = None,
                    deadline_exceeded = False, accessor = None\<rparr>"

definition listing_cluster :: "stream_reply \<Rightarrow> cluster" where
  "listing_cluster r =
     scripted_cluster
       [ok_reply, ok_reply,
        ok_reply, ok_reply, ok_reply,
        ok_reply, ok_reply, ok_reply,
        r]"

text \<open>
  An artifact store and a local machine for the downloader: an empty disk with the directory
  \<open>/tmp\<close>; a store whose three answers are a refused connection, a status 503, and a status
  200 whose body breaks off; and a store that answers 200 while the destination file cannot
  be created.
\<close>

definition store_url :: string where
  "store_url = ''https://oss.example/backup/emsau_iotdb-0_20240101103501.tar.gz''"

definition dest :: string where
  "dest = ''/tmp/emsau_iotdb-0_20240101103501.tar.gz''"

definition empty_host :: host where
  "empty_host = \<lparr>disk = [], directories = [''/tmp''], events = []\<rparr>"

definition broken_body :: http_response where
  "broken_body = \<lparr>status = 200, content_length = 1024, body = [''partial''],
                   body_err = Some (Err ''unexpected EOF'')\<rparr>"

definition failing_store :: net_env where
  "failing_store =
     \<lparr>filepath_Dir = (\<lambda>path. ''/tmp''),
      new_request = (\<lambda>method url. None),
      http_do = (\<lambda>evs. if length evs = 1 then Transport (Err ''connection refused'')
                        else if length evs = 3
                        then Reply \<lparr>status = 503, content_length = 0, body = [], body_err = None\<rparr>
                        else Reply broken_body),
      mkdir_error = (\<lambda>evs dir. None),
      create_error = (\<lambda>evs path. None),
      write_error = (\<lambda>evs k. None),
      tardy = (\<lambda>evs k. True)\<rparr>"

definition readonly_store :: net_env where
  "readonly_store =
     \<lparr>filepath_Dir = (\<lambda>path. ''/tmp''),
      new_request = (\<lambda>method url. None),
      http_do = (\<lambda>evs. Reply \<lparr>status = 200, content_length = 4, body = [''data''], body_err = None\<rparr>),
      mkdir_error = (\<lambda>evs dir. None),
      create_error = (\<lambda>evs path. Some (Err ''permission denied'')),
      write_error = (\<lambda>evs k. None),
      tardy = (\<lambda>evs k. True)\<rparr>"


text \<open>
  The machine as the third attempt against the first of these stores finds it, after its GET:
  in that attempt the file is created, the copy writes the piece it received and fails, and
  the removal takes the file away.
\<close>

definition third_attempt_start :: host where
  "third_attempt_start =
     \<lparr>disk = [], directories = [''/tmp''],
      events = [HttpGet store_url, Slept 5000000000, HttpGet store_url,
                Slept 5000000000, HttpGet store_url]\<rparr>"

text \<open>
  A machine that already holds the destination file, and a store in which the candidates of
  seconds 03 and 04 exist, the probe of second 02 fails in transport, and every other
  candidate is absent (the answers go by the number of requests sent so far).
\<close>

definition full_host :: host where
  "full_host = \<lparr>disk = [(dest, ''archive'')], directories = [], events = []\<rparr>"

definition archive_store :: net_env where
  "archive_store =
     \<lparr>filepath_Dir = (\<lambda>path. ''/tmp''),
      new_request = (\<lambda>method url. None),
      http_do = (\<lambda>evs. if length evs = 2 then Transport (Err ''connection reset'')
                        else if length evs = 3 \<or> length evs = 4
                        then Reply \<lparr>status = 200, content_length = 1024, body = [], body_err = None\<rparr>
                        else Reply \<lparr>status = 404, content_length = 0, body = [], body_err = None\<rparr>),
      mkdir_error = (\<lambda>evs dir. None),
      create_error = (\<lambda>evs path. None),
      write_error = (\<lambda>evs k. None),
      tardy = (\<lambda>evs k. True)\<rparr>"

definition demo_candidate :: "int \<Rightarrow> string" where
  "demo_candidate = candidate_url ''https://oss.example/backup'' ''iotdb-0'' ''2024010110''"


section \<open>The success marker is a plain substring test\<close>

lemma slice_window:
  "0 \<le> i \<Longrightarrow> i + len w \<le> len s \<Longrightarrow>
     slice s i (i + len w) = Returned (take (length w) (drop (nat i) s))"
  by (simp add: slice_def len_def)

lemma window_eq_iff:
  "(take (length w) (drop n s) = w) = (\<exists>q. drop n s = w @ q)"
proof
  assume h: "take (length w) (drop n s) = w"
  have "drop n s = take (length w) (drop n s) @ drop (length w) (drop n s)"
    by (rule append_take_drop_id [symmetric])
  with h show "\<exists>q. drop n s = w @ q" by metis
next
  assume "\<exists>q. drop n s = w @ q"
  then show "take (length w) (drop n s) = w" by auto
qed

text \<open>The loop started at \<open>i\<close> finds the least window position at or after \<open>i\<close>.\<close>

definition occurs_at :: "string \<Rightarrow> string \<Rightarrow> nat \<Rightarrow> bool" where
  "occurs_at s w n = (n + length w \<le> length s \<and> take (length w) (drop n s) = w)"

lemma indexOf_loop_spec:
  "0 \<le> i \<Longrightarrow>
   \<exists>k. indexOf_loop s w i = Returned k \<and>
       (if \<exists>n\<ge>nat i. occurs_at s w n
        then k \<ge> i \<and> occurs_at s w (nat k) \<and> (\<forall>n. nat i \<le> n \<and> n < nat k \<longrightarrow> \<not> occurs_at s w n)
        else k = - 1)"
proof (induction s w i rule: indexOf_loop.induct)
  case (1 s w i)
  show ?case
  proof (cases "i \<le> len s - len w")
    case False
    then have "\<not> (\<exists>n\<ge>nat i. occurs_at s w n)"
      using "1.prems" by (auto simp: occurs_at_def len_def)
    moreover have "indexOf_loop s w i = Returned (- 1)"
      using False by (subst indexOf_loop.simps) simp
    ultimately show ?thesis by auto
  next
    case True
    then have inr: "i + len w \<le> len s" by simp
    have sl: "slice s i (i + len w) = Returned (take (length w) (drop (nat i) s))"
      using "1.prems" inr by (rule slice_window)
    show ?thesis
    proof (cases "take (length w) (drop (nat i) s) = w")
      case hit: True
      have occ: "occurs_at s w (nat i)"
        using hit inr "1.prems" by (simp add: occurs_at_def len_def)
      have "indexOf_loop s w i = Returned i"
        using True sl hit by (subst indexOf_loop.simps) (simp add: run_bind_def)
      moreover have "\<exists>n\<ge>nat i. occurs_at s w n" using occ by blast
      ultimately show ?thesis using occ "1.prems" by auto
    next
      case miss: False
      have step: "indexOf_loop s w i = indexOf_loop s w (i + 1)"
        using True sl miss by (subst indexOf_loop.simps) (simp add: run_bind_def)
      have nocc: "\<not> occurs_at s w (nat i)"
        using miss by (simp add: occurs_at_def)
      have ih: "\<exists>k. indexOf_loop s w (i + 1) = Returned k \<and>
         (if \<exists>n\<ge>nat (i + 1). occurs_at s w n
          then k \<ge> i + 1 \<and> occurs_at s w (nat k) \<and>
               (\<forall>n. nat (i + 1) \<le> n \<and> n < nat k \<longrightarrow> \<not> occurs_at s w n)
          else k = - 1)"
        using "1.IH" [OF True miss] "1.prems" by simp
      have shift: "nat (i + 1) = Suc (nat i)" using "1.prems" by simp
      have ex_eq: "(\<exists>n\<ge>nat i. occurs_at s w n) = (\<exists>n\<ge>nat (i + 1). occurs_at s w n)"
        unfolding shift using nocc by (metis Suc_leD Suc_leI le_neq_implies_less)
      from ih obtain k where k: "indexOf_loop s w (i + 1) = Returned k"
        and kspec: "(if \<exists>n\<ge>nat (i + 1). occurs_at s w n
          then k \<ge> i + 1 \<and> occurs_at s w (nat k) \<and>
               (\<forall>n. nat (i + 1) \<le> n \<and> n < nat k \<longrightarrow> \<not> occurs_at s w n)
          else k = - 1)" by blast
      show ?thesis
      proof (cases "\<exists>n\<ge>nat (i + 1). occurs_at s w n")
        case True
        with kspec have a: "k \<ge> i + 1" and b: "occurs_at s w (nat k)"
          and c: "\<forall>n. nat (i + 1) \<le> n \<and> n < nat k \<longrightarrow> \<not> occurs_at s w n" by auto
        have "\<forall>n. nat i \<le> n \<and> n < nat k \<longrightarrow> \<not> occurs_at s w n"
        proof (intro allI impI)
          fix n assume n: "nat i \<le> n \<and> n < nat k"
          show "\<not> occurs_at s w n"
          proof (cases "n = nat i")
            case True then show ?thesis using nocc by simp
          next
            case False
            then have "nat (i + 1) \<le> n" using n shift by simp
            with c n show ?thesis by blast
          qed
        qed
        with a b True ex_eq step k show ?thesis by auto
      next
        case False
        with kspec have "k = - 1" by simp
        with False ex_eq step k show ?thesis by auto
      qed
    qed
  qed
qed

lemma occurs_iff_sublist: "(\<exists>n. occurs_at s w n) = sublist w s"
proof
  assume "\<exists>n. occurs_at s w n"
  then obtain n where n: "n + length w \<le> length s" "take (length w) (drop n s) = w"
    by (auto simp: occurs_at_def)
  have "s = take n s @ take (length w) (drop n s) @ drop (length w) (drop n s)"
    by (metis append_take_drop_id)
  with n(2) have "s = take n s @ w @ drop (length w) (drop n s)" by simp
  then show "sublist w s" unfolding sublist_def by blast
next
  assume "sublist w s"
  then obtain p q where s: "s = p @ w @ q" unfolding sublist_def by blast
  have "occurs_at s w (length p)" unfolding s occurs_at_def by simp
  then show "\<exists>n. occurs_at s w n" by blast
qed

lemma indexOf_sublist:
  "\<exists>k. indexOf s w = Returned k \<and> (k \<ge> 0) = sublist w s \<and> (\<not> sublist w s \<longrightarrow> k = - 1)"
proof -
  from indexOf_loop_spec [of 0 s w]
  obtain k where k: "indexOf_loop s w 0 = Returned k"
    and sp: "(if \<exists>n\<ge>nat 0. occurs_at s w n
        then k \<ge> 0 \<and> occurs_at s w (nat k) \<and> (\<forall>n. nat 0 \<le> n \<and> n < nat k \<longrightarrow> \<not> occurs_at s w n)
        else k = - 1)" by auto
  have ex: "(\<exists>n\<ge>nat 0. occurs_at s w n) = sublist w s"
    using occurs_iff_sublist [of s w] by simp
  show ?thesis
  proof (cases "sublist w s")
    case True
    with sp ex have "k \<ge> 0" by simp
    with k True show ?thesis by (simp add: indexOf_def)
  next
    case False
    with sp ex have "k = - 1" by simp
    with k False show ?thesis by (simp add: indexOf_def)
  qed
qed

lemma contains_sublist: "contains s w = Returned (sublist w s)"
proof -
  obtain k where k: "indexOf s w = Returned k" and kk: "(k \<ge> 0) = sublist w s"
    using indexOf_sublist [of s w] by blast
  show ?thesis
  proof (cases "len s \<ge> len w")
    case False
    then have "length s < length w" by (simp add: len_def)
    then have "\<not> sublist w s" using sublist_length_le [of w s] by auto
    with False show ?thesis by (simp add: contains_def)
  next
    case ge: True
    show ?thesis
    proof (cases "s = w")
      case True
      then show ?thesis using ge by (simp add: contains_def)
    next
      case ne: False
      show ?thesis
      proof (cases "len s > len w")
        case False
        with ge have eq: "length s = length w" by (simp add: len_def)
        have "\<not> sublist w s"
        proof
          assume "sublist w s"
          then obtain p q where "s = p @ w @ q" unfolding sublist_def by blast
          with eq have "s = w" by simp
          with ne show False by simp
        qed
        with False ge ne show ?thesis by (simp add: contains_def)
      next
        case gt: True
        have s1: "slice s 0 (len w) = Returned (take (length w) s)"
          using gt by (simp add: slice_def len_def)
        have s2: "slice s (len s - len w) (len s)
                    = Returned (drop (length s - length w) s)"
          using gt by (simp add: slice_def len_def nat_diff_distrib)
        have pre: "take (length w) s = w \<Longrightarrow> sublist w s"
          by (metis sublist_take)
        have suf: "drop (length s - length w) s = w \<Longrightarrow> sublist w s"
          by (metis sublist_drop)
        show ?thesis
          using ge ne gt s1 s2 k kk pre suf
          by (auto simp: contains_def run_bind_def)
      qed
    qed
  qed
qed

text \<open>
  C10. For all strings \<open>s\<close> and \<open>substr\<close>, \<open>contains(s, substr)\<close> returns (it never panics),
  and it returns true exactly when \<open>substr\<close> occurs in \<open>s\<close> as a contiguous run of equal
  bytes, that is exactly when \<open>indexOf(s, substr)\<close> is non-negative: the branches on
  equality, prefix and suffix add nothing, and no case folding takes place.
\<close>

theorem contains_is_substring_test:
  "contains s substr = Returned (\<exists>p q. s = p @ substr @ q) \<and>
   (\<exists>k. indexOf s substr = Returned k \<and> (k \<ge> 0) = (\<exists>p q. s = p @ substr @ q))"
proof -
  have a: "sublist substr s = (\<exists>p q. s = p @ substr @ q)"
    by (simp add: sublist_def)
  show ?thesis
    using contains_sublist [of s substr] indexOf_sublist [of s substr] a by auto
qed

text \<open>No case is folded: an upper-case marker does not contain the lower-case word.\<close>

lemma contains_keeps_case: "contains ''SUCCESS'' ''success'' = Returned False"
  by (simp add: contains_sublist sublist_Cons_right prefix_code)

section \<open>Every remote call returns\<close>

lemma containsSuccess_returns: "\<exists>b. containsSuccess s = Returned b"
  by (auto simp: containsSuccess_def contains_sublist run_bind_def)

lemma getContainerName_returns: "\<exists>x. getContainerName cl w = Returned x"
  by (simp add: getContainerName_def Let_def split: sum.splits list.splits)

lemma stream_returns: "\<exists>x. stream cl c command w = Returned x"
  by (cases "new_spdy cl (calls w)") (simp_all add: stream_def Let_def del: ex_simps split_paired_Ex)

lemma Exec_returns: "command \<noteq> [] \<Longrightarrow> \<exists>x. Exec cl command w = Returned x"
proof -
  assume ne: "command \<noteq> []"
  obtain r w1 where g: "getContainerName cl w = Returned (r, w1)"
    using getContainerName_returns by (metis surj_pair)
  show ?thesis
  proof (cases r)
    case (Inl e)
    with g show ?thesis by (simp add: Exec_def bindP_def ret_def)
  next
    case (Inr c)
    obtain x where "stream cl c command w1 = Returned x"
      using stream_returns by blast
    with g Inr ne show ?thesis
      by (cases command) (simp_all add: Exec_def bindP_def)
  qed
qed

lemma ExecSimple_returns: "\<exists>x. ExecSimple cl command w = Returned x"
proof -
  obtain so se err w1 where "Exec cl [''sh'', ''-c'', command] w = Returned ((so, se, err), w1)"
    using Exec_returns [of "[''sh'', ''-c'', command]" cl w] by (metis list.distinct(1) surj_pair)
  then show ?thesis
    by (cases err) (simp_all add: ExecSimple_def bindP_def ret_def)
qed

lemma importSingleFile_returns: "\<exists>x. importSingleFile cl cfg f w = Returned x"
proof -
  obtain so se err w1 where e: "Exec cl [''sh'', ''-c'', load_command cfg f] w = Returned ((so, se, err), w1)"
    using Exec_returns [of "[''sh'', ''-c'', load_command cfg f]" cl w] by (metis list.distinct(1) surj_pair)
  obtain a where a: "containsSuccess so = Returned a" using containsSuccess_returns by blast
  obtain b where b: "containsSuccess se = Returned b" using containsSuccess_returns by blast
  show ?thesis
    using e a b by (cases err) (simp_all add: importSingleFile_def bindP_def ret_def liftR_def)
qed

lemma logMemoryUsage_returns: "\<exists>x. logMemoryUsage cl w = Returned x"
proof -
  obtain x where "ExecSimple cl memory_command w = Returned x"
    using ExecSimple_returns by blast
  then show ?thesis by (cases x) (simp add: logMemoryUsage_def bindP_def ret_def)
qed

lemma import_files_returns:
  "\<exists>x. import_files cl cfg fs counts w = Returned x"
proof (induction fs arbitrary: counts w)
  case Nil
  then show ?case by (simp add: ret_def)
next
  case (Cons f fs)
  obtain r w1 where r: "importSingleFile cl cfg f w = Returned (r, w1)"
    using importSingleFile_returns by (metis surj_pair)
  show ?case
    using r Cons.IH by (cases r) (simp_all add: bindP_def)
qed

lemma import_files_counts:
  "import_files cl cfg fs counts w = Returned (counts', w') \<Longrightarrow>
     fst counts' + snd counts' = fst counts + snd counts + len fs"
proof (induction fs arbitrary: counts w)
  case Nil
  then show ?case by (simp add: ret_def len_def)
next
  case (Cons f fs)
  obtain r w1 where r: "importSingleFile cl cfg f w = Returned (r, w1)"
    using importSingleFile_returns by (metis surj_pair)
  show ?case
  proof (cases r)
    case None
    with r Cons.prems have "import_files cl cfg fs (fst counts + 1, snd counts) w1 = Returned (counts', w')"
      by (simp add: bindP_def)
    from Cons.IH [OF this] show ?thesis by (simp add: len_def)
  next
    case (Some e)
    with r Cons.prems have "import_files cl cfg fs (fst counts, snd counts + 1) w1 = Returned (counts', w')"
      by (simp add: bindP_def)
    from Cons.IH [OF this] show ?thesis by (simp add: len_def)
  qed
qed


lemma concat_chunks: "0 < n \<Longrightarrow> concat (chunks n xs) = xs"
proof (induction n xs rule: chunks.induct)
  case (1 n xs)
  show ?case
  proof (cases "xs = []")
    case True
    then show ?thesis by (subst chunks.simps) simp
  next
    case False
    with 1 have "concat (chunks n (drop n xs)) = drop n xs" by simp
    with False "1.prems" show ?thesis by (subst chunks.simps) simp
  qed
qed

lemma ceil_step:
  fixes n l :: nat
  assumes "0 < n" "0 < l"
  shows "(l + n - 1) div n = Suc ((l - n + n - 1) div n)"
proof (cases "n \<le> l")
  case True
  then have "l + n - 1 = (l - n + n - 1) + n" using assms by simp
  then show ?thesis using assms by (simp only: div_add_self2)
next
  case False
  then have a: "l - n = 0" by simp
  have "(l + n - 1) div n = 1"
    using False assms by (intro div_nat_eqI) simp_all
  moreover have "(n - 1) div n = 0" using assms by simp
  ultimately show ?thesis using a by simp
qed

lemma chunks_eq_map:
  "0 < n \<Longrightarrow>
     chunks n xs = map (\<lambda>k. take n (drop (k * n) xs)) [0..<(length xs + n - 1) div n]"
proof (induction n xs rule: chunks.induct)
  case (1 n xs)
  show ?case
  proof (cases "xs = []")
    case True
    then show ?thesis using "1.prems" by (subst chunks.simps) simp
  next
    case False
    have ih: "chunks n (drop n xs) =
        map (\<lambda>k. take n (drop (k * n) (drop n xs))) [0..<(length (drop n xs) + n - 1) div n]"
      using 1 False by simp
    have cnt: "(length xs + n - 1) div n = Suc ((length (drop n xs) + n - 1) div n)"
      using ceil_step [of n "length xs"] False "1.prems" by simp
    have "map (\<lambda>k. take n (drop (k * n) xs)) [0..<Suc ((length (drop n xs) + n - 1) div n)]
        = take n xs # map (\<lambda>k. take n (drop (Suc k * n) xs)) [0..<(length (drop n xs) + n - 1) div n]"
      by (simp add: upt_conv_Cons map_Suc_upt [symmetric] del: upt_Suc)
    also have "\<dots> = take n xs # chunks n (drop n xs)"
      unfolding ih by (simp add: add.commute)
    finally show ?thesis
      using False "1.prems" cnt by (subst chunks.simps) simp
  qed
qed


lemma batch_slice:
  assumes "0 \<le> i" "i < len files" "0 < b"
  shows "slice files i (if i + b > len files then len files else i + b)
           = Returned (take (nat b) (drop (nat i) files))"
proof (cases "i + b > len files")
  case True
  have "take (nat (len files - i)) (drop (nat i) files) = drop (nat i) files"
    using assms by (simp add: len_def)
  moreover have "take (nat b) (drop (nat i) files) = drop (nat i) files"
    using assms True by (simp add: len_def)
  ultimately show ?thesis using True assms by (simp add: slice_def)
next
  case False
  then show ?thesis using assms by (simp add: slice_def)
qed

lemma batch_nonempty:
  "0 \<le> i \<Longrightarrow> i < len files \<Longrightarrow> 0 < b \<Longrightarrow> take (nat b) (drop (nat i) files) \<noteq> []"
  by (simp add: len_def)

lemma sleep_returns:
  "\<exists>w'. (if c then sleep_seconds n else ret ()) w = Returned ((), w')"
  by (simp add: sleep_seconds_def ret_def)

lemma import_iter_spec:
  assumes r: "import_iter cl cfg files i acc w = Returned (acc1, w1)"
    and i0: "0 \<le> i" and iN: "i < len files"
  shows "0 < BatchSize (ImportConf cfg) \<and> Concurrency (ImportConf cfg) \<noteq> 0 \<and>
     successCount acc1 + failedCount acc1 =
       successCount acc + failedCount acc
         + len (take (nat (BatchSize (ImportConf cfg))) (drop (nat i) files)) \<and>
     batches acc1 = batches acc @ [take (nat (BatchSize (ImportConf cfg))) (drop (nat i) files)]"
proof -
  let ?b = "BatchSize (ImportConf cfg)"
  let ?batch = "take (nat ?b) (drop (nat i) files)"
  have bpos: "0 < ?b" using import_iter_returns_positive [OF r iN] .
  have sl: "slice files i (if i + ?b > len files then len files else i + ?b) = Returned ?batch"
    using batch_slice [OF i0 iN bpos] .
  have ne: "?batch \<noteq> []" using batch_nonempty [OF i0 iN bpos] .
  obtain w2 where m: "logMemoryUsage cl w = Returned ((), w2)"
    using logMemoryUsage_returns [of cl w] by auto
  have step1: "import_iter cl cfg files i acc w =
      bindP (run_batch cl cfg (Concurrency (ImportConf cfg)) ?batch (successCount acc, failedCount acc))
        (\<lambda>counts.
           bindP (if i + ?b < len files \<and> BatchPause (ImportConf cfg)
                  then sleep_seconds (BatchDelay (ImportConf cfg)) else ret ()) (\<lambda>u.
           ret \<lparr>successCount = fst counts, failedCount = snd counts,
                batches = batches acc @ [?batch]\<rparr>)) w2"
    using sl bpos m by (simp add: import_iter_def Let_def bindP_def liftR_def)
  have cne: "Concurrency (ImportConf cfg) \<noteq> 0"
  proof
    assume "Concurrency (ImportConf cfg) = 0"
    with step1 ne have "import_iter cl cfg files i acc w = Blocked"
      by (simp add: run_batch_def bindP_def)
    with r show False by simp
  qed
  obtain counts w3 where f: "import_files cl cfg ?batch (successCount acc, failedCount acc) w2
      = Returned (counts, w3)"
    using import_files_returns [of cl cfg ?batch "(successCount acc, failedCount acc)" w2]
    by (metis surj_pair)
  have sum: "fst counts + snd counts = successCount acc + failedCount acc + len ?batch"
    using import_files_counts [OF f] by simp
  obtain w4 where sl4: "(if i + ?b < len files \<and> BatchPause (ImportConf cfg)
                  then sleep_seconds (BatchDelay (ImportConf cfg)) else ret ()) w3 = Returned ((), w4)"
    using sleep_returns by blast
  have "import_iter cl cfg files i acc w =
      Returned (\<lparr>successCount = fst counts, failedCount = snd counts,
                batches = batches acc @ [?batch]\<rparr>, w4)"
    unfolding step1 using cne f sl4 by (simp add: run_batch_def bindP_def ret_def)
  with r have "acc1 = \<lparr>successCount = fst counts, failedCount = snd counts,
                batches = batches acc @ [?batch]\<rparr>" by simp
  with sum bpos cne show ?thesis by simp
qed

lemma import_iter_returns:
  assumes i0: "0 \<le> i" and iN: "i < len files"
    and bpos: "0 < BatchSize (ImportConf cfg)" and cne: "Concurrency (ImportConf cfg) \<noteq> 0"
  shows "\<exists>x. import_iter cl cfg files i acc w = Returned x"
proof -
  let ?b = "BatchSize (ImportConf cfg)"
  let ?batch = "take (nat ?b) (drop (nat i) files)"
  have sl: "slice files i (if i + ?b > len files then len files else i + ?b) = Returned ?batch"
    using batch_slice [OF i0 iN bpos] .
  obtain w2 where m: "logMemoryUsage cl w = Returned ((), w2)"
    using logMemoryUsage_returns [of cl w] by auto
  obtain counts w3 where f: "import_files cl cfg ?batch (successCount acc, failedCount acc) w2
      = Returned (counts, w3)"
    using import_files_returns [of cl cfg ?batch "(successCount acc, failedCount acc)" w2]
    by (metis surj_pair)
  obtain w4 where sl4: "(if i + ?b < len files \<and> BatchPause (ImportConf cfg)
                  then sleep_seconds (BatchDelay (ImportConf cfg)) else ret ()) w3 = Returned ((), w4)"
    using sleep_returns by blast
  show ?thesis
    using sl bpos m cne f sl4
    by (simp add: import_iter_def Let_def bindP_def liftR_def run_batch_def ret_def)
qed


lemma chunks_Nil: "chunks n [] = []"
  by (subst chunks.simps) simp

lemma chunks_step:
  "0 < n \<Longrightarrow> xs \<noteq> [] \<Longrightarrow> chunks n xs = take n xs # chunks n (drop n xs)"
  by (subst chunks.simps) simp

lemma nat_ceil:
  "0 < b \<Longrightarrow> nat ((len xs + b - 1) div b) = (length xs + nat b - 1) div nat b"
proof -
  assume b: "0 < b"
  then obtain n where n: "b = int n" and npos: "0 < n"
    by (metis zero_less_imp_eq_int)
  have "len xs + int n - 1 = int (length xs + n - 1)" using npos by (simp add: len_def)
  then have "nat ((len xs + int n - 1) div int n) = nat (int ((length xs + n - 1) div n))"
    by (simp only: zdiv_int)
  then show ?thesis unfolding n by simp
qed

lemma import_loop_spec:
  "import_loop cl cfg files i acc w = Returned (acc', w') \<Longrightarrow> 0 \<le> i \<Longrightarrow>
     successCount acc' + failedCount acc' =
       successCount acc + failedCount acc + len (drop (nat i) files) \<and>
     batches acc' = batches acc @ chunks (nat (BatchSize (ImportConf cfg))) (drop (nat i) files)"
proof (induction cl cfg files i acc w rule: import_loop.induct)
  case (1 cl cfg files i acc w)
  let ?b = "BatchSize (ImportConf cfg)"
  show ?case
  proof (cases "i < len files")
    case False
    then have "drop (nat i) files = []" using "1.prems" by (simp add: len_def)
    moreover have "acc' = acc"
      using False "1.prems"(1) by (subst (asm) import_loop.simps) simp
    ultimately show ?thesis by (simp add: chunks_Nil len_def)
  next
    case True
    obtain acc1 w1 where it: "import_iter cl cfg files i acc w = Returned (acc1, w1)"
      using True "1.prems"(1)
      by (subst (asm) import_loop.simps) (auto split: run.splits)
    have rest: "import_loop cl cfg files (i + ?b) acc1 w1 = Returned (acc', w')"
      using True "1.prems"(1) it by (subst (asm) import_loop.simps) simp
    from import_iter_spec [OF it "1.prems"(2) True]
    have bpos: "0 < ?b"
      and sum1: "successCount acc1 + failedCount acc1 =
          successCount acc + failedCount acc + len (take (nat ?b) (drop (nat i) files))"
      and bat1: "batches acc1 = batches acc @ [take (nat ?b) (drop (nat i) files)]"
      by simp_all
    have i2: "0 \<le> i + ?b" using "1.prems"(2) bpos by simp
    have ih: "successCount acc' + failedCount acc' =
          successCount acc1 + failedCount acc1 + len (drop (nat (i + ?b)) files) \<and>
        batches acc' = batches acc1 @ chunks (nat ?b) (drop (nat (i + ?b)) files)"
      using "1.IH" [OF True it _ i2] rest by simp
    have dd: "drop (nat (i + ?b)) files = drop (nat ?b) (drop (nat i) files)"
      using "1.prems"(2) bpos by (simp add: nat_add_distrib add.commute)
    have ne: "drop (nat i) files \<noteq> []" using True "1.prems"(2) by (simp add: len_def)
    have ch: "chunks (nat ?b) (drop (nat i) files) =
        take (nat ?b) (drop (nat i) files) # chunks (nat ?b) (drop (nat ?b) (drop (nat i) files))"
      using chunks_step [OF _ ne, of "nat ?b"] bpos by simp
    have ln: "len (take (nat ?b) (drop (nat i) files)) + len (drop (nat ?b) (drop (nat i) files))
        = len (drop (nat i) files)"
      unfolding len_def by (metis append_take_drop_id length_append of_nat_add)
    show ?thesis
      using ih sum1 bat1 ln unfolding dd ch by simp
  qed
qed

lemma import_loop_returns:
  "0 \<le> i \<Longrightarrow> 0 < BatchSize (ImportConf cfg) \<Longrightarrow> Concurrency (ImportConf cfg) \<noteq> 0 \<Longrightarrow>
     \<exists>x. import_loop cl cfg files i acc w = Returned x"
proof (induction cl cfg files i acc w rule: import_loop.induct)
  case (1 cl cfg files i acc w)
  show ?case
  proof (cases "i < len files")
    case False
    then show ?thesis by (subst import_loop.simps) simp
  next
    case True
    obtain x where it: "import_iter cl cfg files i acc w = Returned x"
      using import_iter_returns [OF "1.prems"(1) True "1.prems"(2,3)] by blast
    have "\<exists>y. import_loop cl cfg files (i + BatchSize (ImportConf cfg)) (fst x) (snd x) = Returned y"
      using "1.IH" [OF True it] "1.prems" by simp
    then show ?thesis using True it by (subst import_loop.simps) simp
  qed
qed

lemma import_loop_blocks_or_panics:
  "import_loop cl cfg files 0 acc w = Returned x \<Longrightarrow> files \<noteq> [] \<Longrightarrow>
     0 < BatchSize (ImportConf cfg) \<and> Concurrency (ImportConf cfg) \<noteq> 0"
proof -
  assume r: "import_loop cl cfg files 0 acc w = Returned x" and ne: "files \<noteq> []"
  have lt: "0 < len files" using ne by (simp add: len_def)
  obtain acc1 w1 where it: "import_iter cl cfg files 0 acc w = Returned (acc1, w1)"
    using lt r by (subst (asm) import_loop.simps) (auto split: run.splits)
  from import_iter_spec [OF it _ lt] show ?thesis by simp
qed


lemma sdiv_nonneg: "0 \<le> a \<Longrightarrow> 0 < b \<Longrightarrow> a sdiv b = a div (b::int)"
  by (simp add: signed_divide_int_def sgn_if)

lemma importFile_returns: "\<exists>x. importFile cl b f w = Returned x"
proof -
  obtain so se err w1 where e: "Exec cl [''sh'', ''-c'', load_command (config b) f] w = Returned ((so, se, err), w1)"
    using Exec_returns [of "[''sh'', ''-c'', load_command (config b) f]" cl w] by (metis list.distinct(1) surj_pair)
  obtain x where x: "containsSuccess so = Returned x" using containsSuccess_returns by blast
  obtain y where y: "containsSuccess se = Returned y" using containsSuccess_returns by blast
  show ?thesis
    using e x y by (cases err) (simp_all add: importFile_def bindP_def ret_def liftR_def)
qed

lemma process_files_returns:
  "\<exists>x. process_files cl b fs counts w = Returned x"
proof (induction fs arbitrary: counts w)
  case Nil
  then show ?case by (simp add: ret_def)
next
  case (Cons f fs)
  obtain r w1 where r: "importFile cl b f w = Returned (r, w1)"
    using importFile_returns by (metis surj_pair)
  show ?case
    using r Cons.IH by (cases r) (simp_all add: bindP_def)
qed

lemma processBatch_cases:
  "processBatch cl b batch w = Panicked \<and> concurrency b < 0 \<or>
   processBatch cl b batch w = Blocked \<and> concurrency b = 0 \<and> Files batch \<noteq> [] \<or>
   (\<exists>s f w1. processBatch cl b batch w = Returned ((s, f, None), w1)) \<and>
     (0 < concurrency b \<or> concurrency b = 0 \<and> Files batch = [])"
proof -
  obtain c w1 where "process_files cl b (Files batch) (0, 0) w = Returned (c, w1)"
    using process_files_returns [of cl b "Files batch" "(0, 0)" w] by (metis surj_pair)
  then show ?thesis
    by (auto simp: processBatch_def bindP_def ret_def)
qed

lemma process_iter_spec:
  assumes r: "process_iter cl b files i bs w = Returned (x, w1)"
    and i0: "0 \<le> i" and iN: "i < len files"
  shows "0 < batchSize b \<and> 0 < concurrency b \<and>
     (\<exists>s f. x = Inr (bs @ [\<lparr>Number = i div batchSize b + 1,
                             Files = take (nat (batchSize b)) (drop (nat i) files),
                             Processed = len (take (nat (batchSize b)) (drop (nat i) files)),
                             Success = s, Failed = f\<rparr>]))"
proof -
  let ?b = "batchSize b"
  let ?batch = "take (nat ?b) (drop (nat i) files)"
  let ?B = "\<lparr>Number = i sdiv ?b + 1, Files = ?batch, Processed = 0, Success = 0, Failed = 0\<rparr>"
  have bpos: "0 < ?b" using process_iter_returns_positive [OF r iN] .
  have sl: "slice files i (if i + ?b > len files then len files else i + ?b) = Returned ?batch"
    using batch_slice [OF i0 iN bpos] .
  have ne: "Files ?B \<noteq> []" using batch_nonempty [OF i0 iN bpos] by simp
  have notP: "processBatch cl b ?B w \<noteq> Panicked"
  proof
    assume "processBatch cl b ?B w = Panicked"
    then have "process_iter cl b files i bs w = Panicked"
      using sl bpos by (simp add: process_iter_def Let_def bindP_def liftR_def)
    with r show False by simp
  qed
  have notB: "processBatch cl b ?B w \<noteq> Blocked"
  proof
    assume "processBatch cl b ?B w = Blocked"
    then have "process_iter cl b files i bs w = Blocked"
      using sl bpos by (simp add: process_iter_def Let_def bindP_def liftR_def)
    with r show False by simp
  qed
  from processBatch_cases [of cl b ?B w] notP notB ne
  obtain s f w2 where pb: "processBatch cl b ?B w = Returned ((s, f, None), w2)"
    and cpos: "0 < concurrency b"
    by auto
  obtain w3 where sl4: "(if i + ?b < len files \<and> BatchPause (ImportConf (config b))
                  then sleep_seconds (BatchDelay (ImportConf (config b))) else ret ()) w2 = Returned ((), w3)"
    using sleep_returns by blast
  have "process_iter cl b files i bs w =
      Returned (Inr (bs @ [?B\<lparr>Success := s, Failed := f, Processed := len ?batch\<rparr>]), w3)"
    using sl bpos pb sl4 by (simp add: process_iter_def Let_def bindP_def liftR_def ret_def)
  with r have "x = Inr (bs @ [?B\<lparr>Success := s, Failed := f, Processed := len ?batch\<rparr>])" by simp
  then show ?thesis using bpos cpos i0 by (simp add: sdiv_nonneg)
qed

lemma process_iter_returns:
  assumes i0: "0 \<le> i" and iN: "i < len files"
    and bpos: "0 < batchSize b" and cpos: "0 < concurrency b"
  shows "\<exists>x. process_iter cl b files i bs w = Returned x"
proof -
  let ?b = "batchSize b"
  let ?batch = "take (nat ?b) (drop (nat i) files)"
  let ?B = "\<lparr>Number = i sdiv ?b + 1, Files = ?batch, Processed = 0, Success = 0, Failed = 0\<rparr>"
  have sl: "slice files i (if i + ?b > len files then len files else i + ?b) = Returned ?batch"
    using batch_slice [OF i0 iN bpos] .
  from processBatch_cases [of cl b ?B w] cpos
  obtain s f w2 where pb: "processBatch cl b ?B w = Returned ((s, f, None), w2)"
    by auto
  obtain w3 where sl4: "(if i + ?b < len files \<and> BatchPause (ImportConf (config b))
                  then sleep_seconds (BatchDelay (ImportConf (config b))) else ret ()) w2 = Returned ((), w3)"
    using sleep_returns by blast
  show ?thesis
    using sl bpos pb sl4 by (simp add: process_iter_def Let_def bindP_def liftR_def ret_def)
qed


lemma process_loop_spec:
  "process_loop cl b files i bs w = Returned ((bs', err), w') \<Longrightarrow> 0 \<le> i \<Longrightarrow>
   i = batchSize b * len bs \<Longrightarrow> map Number bs = map (\<lambda>k. int k + 1) [0..<length bs] \<Longrightarrow>
     err = None \<and>
     map Files bs' = map Files bs @ chunks (nat (batchSize b)) (drop (nat i) files) \<and>
     map Number bs' = map (\<lambda>k. int k + 1) [0..<length bs']"
proof (induction cl b files i bs w rule: process_loop.induct)
  case (1 cl b files i bs w)
  let ?b = "batchSize b"
  show ?case
  proof (cases "i < len files")
    case False
    then have "drop (nat i) files = []" using "1.prems"(2) by (simp add: len_def)
    moreover have "bs' = bs \<and> err = None"
      using False "1.prems"(1) by (subst (asm) process_loop.simps) simp
    ultimately show ?thesis using "1.prems"(4) by (simp add: chunks_Nil)
  next
    case True
    obtain x w1 where it: "process_iter cl b files i bs w = Returned (x, w1)"
      using True "1.prems"(1)
      by (subst (asm) process_loop.simps) (auto split: run.splits)
    from process_iter_spec [OF it "1.prems"(2) True]
    obtain s f where bpos: "0 < ?b"
      and x: "x = Inr (bs @ [\<lparr>Number = i div ?b + 1,
                             Files = take (nat ?b) (drop (nat i) files),
                             Processed = len (take (nat ?b) (drop (nat i) files)),
                             Success = s, Failed = f\<rparr>])"
      by blast
    define bs1 where "bs1 = bs @ [\<lparr>Number = i div ?b + 1,
                             Files = take (nat ?b) (drop (nat i) files),
                             Processed = len (take (nat ?b) (drop (nat i) files)),
                             Success = s, Failed = f\<rparr>]"
    have x1: "x = Inr bs1" using x bs1_def by simp
    have rest: "process_loop cl b files (i + ?b) bs1 w1 = Returned ((bs', err), w')"
      using True "1.prems"(1) it x1 by (subst (asm) process_loop.simps) simp
    have i2: "0 \<le> i + ?b" using "1.prems"(2) bpos by simp
    have idx: "i + ?b = ?b * len bs1"
      using "1.prems"(3) by (simp add: bs1_def len_def algebra_simps)
    have num: "i div ?b + 1 = int (length bs) + 1"
      using "1.prems"(3) bpos by (simp add: len_def)
    have nums: "map Number bs1 = map (\<lambda>k. int k + 1) [0..<length bs1]"
      using "1.prems"(4) num by (simp add: bs1_def)
    have ih: "err = None \<and>
        map Files bs' = map Files bs1 @ chunks (nat ?b) (drop (nat (i + ?b)) files) \<and>
        map Number bs' = map (\<lambda>k. int k + 1) [0..<length bs']"
      using "1.IH" [OF True it, of bs1] x1 rest i2 idx nums by simp
    have dd: "drop (nat (i + ?b)) files = drop (nat ?b) (drop (nat i) files)"
      using "1.prems"(2) bpos by (simp add: nat_add_distrib add.commute)
    have ne: "drop (nat i) files \<noteq> []" using True "1.prems"(2) by (simp add: len_def)
    have ch: "chunks (nat ?b) (drop (nat i) files) =
        take (nat ?b) (drop (nat i) files) # chunks (nat ?b) (drop (nat ?b) (drop (nat i) files))"
      using chunks_step [OF _ ne, of "nat ?b"] bpos by simp
    show ?thesis
      using ih unfolding dd ch by (simp add: bs1_def)
  qed
qed

lemma process_loop_returns:
  "0 \<le> i \<Longrightarrow> 0 < batchSize b \<Longrightarrow> 0 < concurrency b \<Longrightarrow>
     \<exists>x. process_loop cl b files i bs w = Returned x"
proof (induction cl b files i bs w rule: process_loop.induct)
  case (1 cl b files i bs w)
  show ?case
  proof (cases "i < len files")
    case False
    then show ?thesis by (subst process_loop.simps) simp
  next
    case True
    obtain x w1 where it: "process_iter cl b files i bs w = Returned (x, w1)"
      using process_iter_returns [OF "1.prems"(1) True "1.prems"(2,3)] by (metis surj_pair)
    show ?thesis
    proof (cases x)
      case (Inl e)
      then show ?thesis using True it by (subst process_loop.simps) simp
    next
      case (Inr bs1)
      have "\<exists>y. process_loop cl b files (i + batchSize b) bs1 (snd (x, w1)) = Returned y"
        using "1.IH" [OF True it, of bs1] Inr "1.prems" by simp
      then show ?thesis using True it Inr by (subst process_loop.simps) simp
    qed
  qed
qed

lemma wrap64_id: "0 \<le> x \<Longrightarrow> x < 2 ^ 63 \<Longrightarrow> wrap64 x = x"
  by (simp add: wrap64_def sint_sbintrunc' signed_take_bit_int_eq_self)

lemma Import_runs_loop:
  assumes a: "Import cl cfg files w = Returned (x, w')"
  shows "\<exists>acc. import_loop cl cfg files 0 \<lparr>successCount = 0, failedCount = 0, batches = []\<rparr> w
               = Returned (acc, w')"
proof -
  let ?acc0 = "\<lparr>successCount = 0, failedCount = 0, batches = []\<rparr>"
  have c: "\<not> Concurrency (ImportConf cfg) < 0"
  proof
    assume "Concurrency (ImportConf cfg) < 0"
    then have "Import cl cfg files w = Panicked" by (simp add: Import_def)
    with a show False by simp
  qed
  show ?thesis
  proof (cases "import_loop cl cfg files 0 ?acc0 w")
    case (Returned y)
    obtain acc w1 where y: "y = (acc, w1)" by (cases y)
    with Returned a c have "w' = w1" by (simp add: Import_def bindP_def ret_def)
    with Returned y show ?thesis by simp
  next
    case Panicked
    with a c show ?thesis by (simp add: Import_def bindP_def)
  next
    case Blocked
    with a c show ?thesis by (simp add: Import_def bindP_def)
  qed
qed

lemma slices_of_chunks:
  "0 < b \<Longrightarrow>
     chunks (nat b) files =
       map (\<lambda>k. take (nat b) (drop (k * nat b) files)) [0..<nat ((len files + b - 1) div b)]"
  using chunks_eq_map [of "nat b" files] nat_ceil [of b files] by simp

section \<open>The phases of the restore pipeline\<close>






text \<open>
  \<open>parseFileList\<close> returns for every output, and finds no file exactly in an output that
  holds nothing but newlines.
\<close>

lemma slice_length:
  "slice xs lo hi = Returned ys \<Longrightarrow> len ys = hi - lo"
  by (auto simp: slice_def len_def split: if_splits)

lemma no_line: "\<not> has_line []"
  by (simp add: has_line_def)

lemma has_line_snoc: "has_line (lines @ [line]) \<longleftrightarrow> has_line lines \<or> line \<noteq> []"
  by (auto simp: has_line_def)

lemma has_char_step:
  assumes "0 \<le> i" and "i < len s"
  shows "has_char s i \<longleftrightarrow> s ! nat i \<noteq> CHR 0x0A \<or> has_char s (i + 1)"
proof -
  have "nat i < length s" using assms by (simp add: len_def)
  then have "drop (nat i) s = s ! nat i # drop (Suc (nat i)) s" by (simp add: Cons_nth_drop_Suc)
  moreover have "nat (i + 1) = Suc (nat i)" using assms(1) by simp
  ultimately show ?thesis by (simp add: has_char_def)
qed

lemma has_char_end: "len s \<le> i \<Longrightarrow> \<not> has_char s i"
  by (simp add: has_char_def len_def)

lemma slice_line:
  "0 \<le> lo \<Longrightarrow> lo \<le> hi \<Longrightarrow> hi \<le> len s \<Longrightarrow>
     \<exists>line. slice s lo hi = Returned line \<and> (line \<noteq> [] \<longleftrightarrow> lo < hi)"
  by (simp add: slice_def len_def) linarith

lemma splitLines_loop_lines:
  "0 \<le> start \<Longrightarrow> start \<le> i \<Longrightarrow> i \<le> len s \<Longrightarrow>
     \<exists>ls. splitLines_loop s i start lines = Returned ls \<and>
          (has_line ls \<longleftrightarrow> has_line lines \<or> start < i \<or> has_char s i)"
proof (induction s i start lines rule: splitLines_loop.induct)
  case (1 s i start lines)
  have i0: "0 \<le> i" using "1.prems" by simp
  show ?case
  proof (cases "i < len s")
    case inside: True
    show ?thesis
    proof (cases "s ! nat i = CHR 0x0A")
      case nl: True
      from slice_line [OF "1.prems"]
      obtain line where line: "slice s start i = Returned line" and ll: "line \<noteq> [] \<longleftrightarrow> start < i"
        by blast
      have unf: "splitLines_loop s i start lines = splitLines_loop s (i + 1) (i + 1) (lines @ [line])"
        using inside nl line by (subst splitLines_loop.simps) (simp add: run_bind_def)
      have "0 \<le> i + 1" "i + 1 \<le> i + 1" "i + 1 \<le> len s" using "1.prems" inside by simp_all
      from "1.IH"(1) [OF inside nl this, of line]
      obtain ls where ls: "splitLines_loop s (i + 1) (i + 1) (lines @ [line]) = Returned ls"
        and iff: "has_line ls \<longleftrightarrow> has_line (lines @ [line]) \<or> i + 1 < i + 1 \<or> has_char s (i + 1)"
        by blast
      have "has_line ls \<longleftrightarrow> has_line lines \<or> start < i \<or> has_char s i"
        using iff ll has_char_step [OF i0 inside] nl by (simp add: has_line_snoc)
      with ls unf show ?thesis by simp
    next
      case other: False
      have unf: "splitLines_loop s i start lines = splitLines_loop s (i + 1) start lines"
        using inside other by (subst splitLines_loop.simps) simp
      have "0 \<le> start" "start \<le> i + 1" "i + 1 \<le> len s" using "1.prems" inside by simp_all
      from "1.IH"(2) [OF inside other this]
      obtain ls where ls: "splitLines_loop s (i + 1) start lines = Returned ls"
        and iff: "has_line ls \<longleftrightarrow> has_line lines \<or> start < i + 1 \<or> has_char s (i + 1)"
        by blast
      have "start < i + 1" using "1.prems" by simp
      with iff have "has_line ls" by simp
      moreover have "has_char s i" using has_char_step [OF i0 inside] other by simp
      ultimately show ?thesis using ls unf by simp
    qed
  next
    case fin: False
    with "1.prems" have il: "i = len s" by simp
    have none: "\<not> has_char s i" using il by (simp add: has_char_end)
    show ?thesis
    proof (cases "start < len s")
      case True
      have "0 \<le> start" "start \<le> len s" "len s \<le> len s" using "1.prems" il by simp_all
      from slice_line [OF this] True
      obtain line where line: "slice s start (len s) = Returned line" and "line \<noteq> []" by blast
      then have "has_line (lines @ [line])" by (simp add: has_line_snoc)
      moreover have "splitLines_loop s i start lines = Returned (lines @ [line])"
        using fin True line by (subst splitLines_loop.simps) (simp add: run_bind_def)
      ultimately show ?thesis using True il by simp
    next
      case False
      then have "splitLines_loop s i start lines = Returned lines"
        using fin by (subst splitLines_loop.simps) simp
      moreover have "\<not> start < i" using False il by simp
      ultimately show ?thesis using none by simp
    qed
  qed
qed

lemma parseFileList_returns: "\<exists>files. parseFileList output = Returned files"
proof (cases "output = []")
  case True
  then show ?thesis by (simp add: parseFileList_def splitLines_def run_bind_def)
next
  case False
  have "0 \<le> (0::int)" "(0::int) \<le> 0" "0 \<le> len output" by (simp_all add: len_def)
  from splitLines_loop_lines [OF this, of "[]"]
  obtain ls where "splitLines_loop output 0 0 [] = Returned ls" by blast
  with False show ?thesis by (simp add: parseFileList_def splitLines_def run_bind_def)
qed

lemma has_char_set: "has_char s 0 \<longleftrightarrow> (\<exists>c\<in>set s. c \<noteq> CHR 0x0A)"
  by (simp add: has_char_def)

lemma no_file_iff_newlines:
  assumes "parseFileList output = Returned files"
  shows "files = [] \<longleftrightarrow> (\<forall>c\<in>set output. c = CHR 0x0A)"
proof (cases "output = []")
  case True
  with assms show ?thesis by (simp add: parseFileList_def splitLines_def run_bind_def)
next
  case False
  have "0 \<le> (0::int)" "(0::int) \<le> 0" "0 \<le> len output" by (simp_all add: len_def)
  from splitLines_loop_lines [OF this, of "[]"]
  have "\<exists>ls. splitLines_loop output 0 0 [] = Returned ls \<and> (has_line ls \<longleftrightarrow> has_char output 0)"
    by (simp add: no_line)
  then obtain ls where ls: "splitLines_loop output 0 0 [] = Returned ls"
    and iff: "has_line ls \<longleftrightarrow> has_char output 0"
    by blast
  have files: "files = filter (\<lambda>line. line \<noteq> []) ls"
    using assms False ls by (simp add: parseFileList_def splitLines_def run_bind_def)
  have "files = [] \<longleftrightarrow> \<not> has_line ls" unfolding files has_line_def by (simp add: filter_empty_conv)
  with iff has_char_set [of "output"] show ?thesis by simp
qed

lemma find_prints_nothing:
  assumes "CHR ''/'' \<in> set start" and "parseFileList (find_prints start names) = Returned []"
  shows "names = []"
proof (rule ccontr)
  assume "names \<noteq> []"
  then obtain n ns where "names = n # ns" by (cases names) auto
  then have "CHR ''/'' \<in> set (find_prints start names)" using assms(1) by (simp add: find_prints_def)
  moreover from no_file_iff_newlines [OF assms(2)] have "\<forall>c\<in>set (find_prints start names). c = CHR 0x0A" by simp
  ultimately show False by auto
qed

lemma find_command_start:
  "find_command cfg = ''find '' @ start_directory cfg @ '' -name '' @ sq @ ''*.tsfile'' @ sq @ '' -type f''"
  by (simp add: find_command_def start_directory_def)

lemma find_prints_no_file:
  assumes "parseFileList (find_prints (start_directory cfg) names) = Returned []"
  shows "find_prints (start_directory cfg) names = []"
proof -
  have "CHR ''/'' \<in> set (start_directory cfg)" by (simp add: start_directory_def)
  from find_prints_nothing [OF this assms] show ?thesis by (simp add: find_prints_def)
qed

lemma discovery_fatal:
  "(Exec cl [''sh'', ''-c'', find_command cfg] w = Returned ((output, stderr, Some e), wa) \<longrightarrow>
      importTsFiles cl cfg w =
        Returned ((None, Some (Wrap (''finding tsfile files failed: '' @ stderr) e)), wa)) \<and>
   (Exec cl [''sh'', ''-c'', find_command cfg] w = Returned (([], stderr, None), wa) \<longrightarrow>
      importTsFiles cl cfg w = Returned ((None, Some (Err ''no tsfile file found'')), wa))"
  by (simp add: importTsFiles_def bindP_def ret_def)

lemma Import_nothing:
  "0 \<le> Concurrency (ImportConf cfg) \<Longrightarrow>
     Import cl cfg [] w =
       Returned ((\<lparr>ImportResult.TotalFiles = 0, ImportResult.SuccessCount = 0,
                   ImportResult.FailedCount = 0\<rparr>, None), w)"
  by (simp add: Import_def bindP_def ret_def len_def)

text \<open>
  The test \<open>output == ""\<close> looks at the output as it came. An output of newlines only,
  which is not a listing that \<open>find\<close> prints, would pass it.
\<close>

lemma blank_lines_not_fatal:
  assumes "Exec cl [''sh'', ''-c'', find_command cfg] w = Returned ((output, stderr, None), wa)"
    and "output \<noteq> []" and "parseFileList output = Returned []"
    and "0 \<le> Concurrency (ImportConf cfg)"
  shows "importTsFiles cl cfg w =
       Returned ((Some \<lparr>ImportResult.TotalFiles = 0, ImportResult.SuccessCount = 0,
                   ImportResult.FailedCount = 0\<rparr>, None), wa)"
  using assms by (simp add: importTsFiles_def bindP_def ret_def liftR_def Import_nothing)

lemma parse_blank: "parseFileList [CHR 0x0A] = Returned []"
  by (simp add: parseFileList_def splitLines_def run_bind_def slice_def len_def)

lemma Restore_completes:
  assumes "\<not> DryRun opts"
    and "downloadBackup cl cfg (backup_file_name cfg opts) w = Returned (None, wa)"
    and "extractBackup cl cfg (backup_file_name cfg opts) wa = Returned (None, wb)"
    and "delete_phase cl cfg opts wb = Returned ((), wc)"
    and "importTsFiles cl cfg wc = Returned ((Some r, None), wd)"
    and "cleanup cl (backup_file_name cfg opts) wd = Returned ((), we)"
  shows "Restore cl cfg opts w =
     Returned ((\<lparr>TotalFiles = ImportResult.TotalFiles r, SuccessCount = ImportResult.SuccessCount r,
                 FailedCount = ImportResult.FailedCount r, BackupFile = backup_file_name cfg opts,
                 Timestamp = RestoreOptions.Timestamp opts, Error = None\<rparr>, None), we)"
  using assms by (simp add: Restore_def Let_def bindP_def ret_def)

section \<open>Two runs of the pipeline, phase by phase\<close>











lemmas listing_defs = bindP_def ret_def liftR_def Let_def
  Exec_def ExecSimple_def FileExists_def getContainerName_def stream_def stream_result_def do_call_def
  listing_cluster_def scripted_cluster_def sh_call_def world_after_def
  fresh_world_def NewExecutor_def ok_reply_def

lemma listing_download: "downloadBackup (listing_cluster r) demo_config demo_file fresh_world
     = Returned (None, world_after download_commands)"
  by (simp add: downloadBackup_def download_commands_def listing_defs)

lemma listing_extract: "extractBackup (listing_cluster r) demo_config demo_file (world_after download_commands)
     = Returned (None, world_after (download_commands @ extract_commands))"
  by (simp add: extractBackup_def download_commands_def extract_commands_def listing_defs)

lemma listing_delete: "delete_phase (listing_cluster r) demo_config demo_options (world_after (download_commands @ extract_commands))
     = Returned ((), world_after (download_commands @ extract_commands @ delete_commands))"
  by (simp add: delete_phase_def deleteDatabases_def download_commands_def extract_commands_def
        delete_commands_def demo_options_def listing_defs)

lemma silent_find: "Exec (listing_cluster silent_reply) [''sh'', ''-c'', find_command demo_config]
       (world_after (download_commands @ extract_commands @ delete_commands))
     = Returned (([], [], None),
         world_after (download_commands @ extract_commands @ delete_commands @ [find_command demo_config]))"
  by (simp add: download_commands_def extract_commands_def delete_commands_def listing_defs
        silent_reply_def)

lemma denied_find: "Exec (listing_cluster failed_reply) [''sh'', ''-c'', find_command demo_config]
       (world_after (download_commands @ extract_commands @ delete_commands))
     = Returned (([], ''denied'', Some (Wrap ''command failed'' (Err ''exit status 1''))),
         world_after (download_commands @ extract_commands @ delete_commands @ [find_command demo_config]))"
  by (simp add: download_commands_def extract_commands_def delete_commands_def listing_defs
        failed_reply_def)

section \<open>The retry loop of the downloader\<close>

lemma file_has_directory:
  "map_of (disk h) path = Some content \<Longrightarrow> dir_exists env h (filepath_Dir env path)"
proof -
  assume "map_of (disk h) path = Some content"
  then have "(path, content) \<in> set (disk h)" by (rule map_of_SomeD)
  then have "filepath_Dir env (fst (path, content)) \<in> (\<lambda>entry. filepath_Dir env (fst entry)) ` set (disk h)"
    by (rule imageI)
  then show ?thesis by (simp add: dir_exists_def)
qed

lemma map_of_remove: "map_of (filter (\<lambda>entry. fst entry \<noteq> path) xs) path = None"
  by (induction xs) auto

lemma filter_absent: "map_of xs path = None \<Longrightarrow> filter (\<lambda>entry. fst entry \<noteq> path) xs = xs"
  by (induction xs) (auto split: if_splits)

lemma append_file_keeps:
  "events (append_file p bytes h) = events h \<and>
   filter (\<lambda>entry. fst entry \<noteq> p) (disk (append_file p bytes h)) = filter (\<lambda>entry. fst entry \<noteq> p) (disk h) \<and>
   map_of (disk (append_file p bytes h)) p = Some (file_content h p @ bytes)"
  by (simp add: append_file_def write_file_def)

lemma copy_body_keeps:
  "copy_body env p tot k ps h = Returned (r, h') \<Longrightarrow> map_of (disk h) p \<noteq> None \<Longrightarrow>
     events h' = events h \<and>
     filter (\<lambda>entry. fst entry \<noteq> p) (disk h') = filter (\<lambda>entry. fst entry \<noteq> p) (disk h) \<and>
     map_of (disk h') p \<noteq> None"
proof (induction ps arbitrary: k h)
  case Nil
  then show ?case by simp
next
  case (Cons q qs)
  show ?case
  proof (cases "q = []")
    case True
    with Cons.prems have "copy_body env p tot k qs h = Returned (r, h')" by simp
    from Cons.IH [OF this Cons.prems(2)] show ?thesis .
  next
    case ne: False
    show ?thesis
    proof (cases "write_error env (events h) k")
      case (Some en)
      obtain e n where "en = (e, n)" by (cases en)
      with Some ne Cons.prems(1) have "h' = append_file p (take n q) h" by simp
      then show ?thesis using append_file_keeps [of p "take n q" h] by simp
    next
      case None
      let ?h1 = "append_file p q h"
      have step: "copy_body env p tot (Suc k) qs ?h1 = Returned (r, h')"
        using Cons.prems(1) ne None by (simp split: if_splits)
      have "map_of (disk ?h1) p \<noteq> None" using append_file_keeps [of p q h] by simp
      from Cons.IH [OF step this] show ?thesis using append_file_keeps [of p q h] by simp
    qed
  qed
qed

lemma copy_body_not_Blocked: "copy_body env p tot k ps h \<noteq> Blocked"
  by (induction ps arbitrary: k h) (auto split: option.splits)

lemma io_Copy_cases:
  "io_Copy env p resp h = Panicked \<or> (\<exists>r h'. io_Copy env p resp h = Returned (r, h'))"
proof (cases "copy_body env p (content_length resp) 0 (body resp) h")
  case (Returned x)
  obtain e h1 where "x = (e, h1)" by (cases x)
  with Returned show ?thesis by (cases e) (simp_all add: io_Copy_def run_bind_def)
next
  case Panicked
  then show ?thesis by (simp add: io_Copy_def run_bind_def)
next
  case Blocked
  then show ?thesis using copy_body_not_Blocked by blast
qed

lemma io_Copy_keeps:
  assumes "io_Copy env p resp h = Returned (r, h')" and "map_of (disk h) p \<noteq> None"
  shows "events h' = events h \<and>
     filter (\<lambda>entry. fst entry \<noteq> p) (disk h') = filter (\<lambda>entry. fst entry \<noteq> p) (disk h) \<and>
     map_of (disk h') p \<noteq> None"
proof (cases "copy_body env p (content_length resp) 0 (body resp) h")
  case (Returned x)
  obtain e h1 where x: "x = (e, h1)" by (cases x)
  with Returned assms(1) have "h' = h1" by (cases e) (simp_all add: io_Copy_def run_bind_def)
  with Returned x copy_body_keeps [of env p "content_length resp" 0 "body resp" h e h1] assms(2)
  show ?thesis by simp
next
  case Panicked
  with assms(1) show ?thesis by (simp add: io_Copy_def run_bind_def)
next
  case Blocked
  then show ?thesis using copy_body_not_Blocked by blast
qed

text \<open>
  When \<open>os.Create\<close> has succeeded, the file is there while the body is copied and when the
  copy ends, with whatever result: it is the removal after a failed copy that takes it away.
\<close>

lemma failed_copy_leaves_the_file:
  assumes "os_Create env p h = (None, h2)" and "io_Copy env p resp h2 = Returned (r, h3)"
  shows "map_of (disk h3) p \<noteq> None \<and> map_of (disk (remove_file p h3)) p = None"
proof -
  have "h2 = write_file p [] h" using assms(1) by (simp add: os_Create_def split: option.splits)
  then have "map_of (disk h2) p \<noteq> None" by (simp add: write_file_def)
  from io_Copy_keeps [OF assms(2) this] show ?thesis by (simp add: remove_file_def map_of_remove)
qed

lemma attempt_Retry:
  assumes "attempt env url p h = Returned (Retry e, h1)" and "map_of (disk h) p = None"
  shows "disk h1 = disk h \<and> events h1 = events h @ gets env url"
proof (cases "new_request env ''GET'' url")
  case (Some e0)
  with assms show ?thesis by (simp add: attempt_def gets_def)
next
  case None
  let ?h1 = "observe (HttpGet url) h"
  show ?thesis
  proof (cases "http_do env (events ?h1)")
    case (Transport e0)
    with assms None show ?thesis by (auto simp: attempt_def gets_def Let_def observe_def)
  next
    case (Reply resp)
    show ?thesis
    proof (cases "status resp \<noteq> 200")
      case True
      with assms None Reply show ?thesis by (auto simp: attempt_def gets_def Let_def observe_def)
    next
      case ok: False
      show ?thesis
      proof (cases "create_error env (events ?h1) p")
        case (Some e0)
        with assms None Reply ok show ?thesis by (simp add: attempt_def Let_def os_Create_def)
      next
        case cn: None
        let ?h2 = "write_file p [] ?h1"
        have cr: "os_Create env p ?h1 = (None, ?h2)" using cn by (simp add: os_Create_def)
        have there: "map_of (disk ?h2) p \<noteq> None" by (simp add: write_file_def)
        from io_Copy_cases [of env p resp ?h2] show ?thesis
        proof
          assume "io_Copy env p resp ?h2 = Panicked"
          with assms None Reply ok cr show ?thesis
            by (simp add: attempt_def Let_def run_bind_def)
        next
          assume "\<exists>r h'. io_Copy env p resp ?h2 = Returned (r, h')"
          then obtain e0 h3 where c: "io_Copy env p resp ?h2 = Returned (e0, h3)" by blast
          show ?thesis
          proof (cases e0)
            case None
            with assms \<open>new_request env ''GET'' url = None\<close> Reply ok cr c show ?thesis
              by (simp add: attempt_def Let_def run_bind_def)
          next
            case (Some e1)
            with assms \<open>new_request env ''GET'' url = None\<close> Reply ok cr c
            have h1: "h1 = remove_file p h3"
              by (simp add: attempt_def Let_def run_bind_def)
            from io_Copy_keeps [OF c there]
            have ev: "events h3 = events ?h2"
              and fl: "filter (\<lambda>entry. fst entry \<noteq> p) (disk h3) = filter (\<lambda>entry. fst entry \<noteq> p) (disk ?h2)"
              by simp_all
            have "filter (\<lambda>entry. fst entry \<noteq> p) (disk ?h2) = disk h"
              using filter_absent [OF assms(2)] by (simp add: write_file_def observe_def)
            with h1 ev fl show ?thesis
              using \<open>new_request env ''GET'' url = None\<close>
              by (simp add: remove_file_def observe_def gets_def write_file_def)
          qed
        qed
      qed
    qed
  qed
qed

lemma attempt_Stop_error:
  assumes "attempt env url p h = Returned (Stop (Some err), h1)"
  shows "\<exists>e. err = Wrap ''creating the destination file failed'' e \<and>
             create_error env (events h1) p = Some e \<and>
             new_request env ''GET'' url = None \<and>
             disk h1 = disk h \<and> events h1 = events h @ gets env url"
proof (cases "new_request env ''GET'' url")
  case (Some e0)
  with assms show ?thesis by (simp add: attempt_def)
next
  case None
  let ?h1 = "observe (HttpGet url) h"
  show ?thesis
  proof (cases "http_do env (events ?h1)")
    case (Transport e0)
    with assms None show ?thesis by (simp add: attempt_def Let_def)
  next
    case (Reply resp)
    show ?thesis
    proof (cases "status resp \<noteq> 200")
      case True
      with assms None Reply show ?thesis by (simp add: attempt_def Let_def)
    next
      case ok: False
      show ?thesis
      proof (cases "create_error env (events ?h1) p")
        case (Some e0)
        with assms None Reply ok show ?thesis
          by (auto simp: attempt_def Let_def os_Create_def observe_def gets_def)
      next
        case cn: None
        let ?h2 = "write_file p [] ?h1"
        have cr: "os_Create env p ?h1 = (None, ?h2)" using cn by (simp add: os_Create_def)
        from io_Copy_cases [of env p resp ?h2] show ?thesis
        proof
          assume "io_Copy env p resp ?h2 = Panicked"
          with assms None Reply ok cr show ?thesis
            by (simp add: attempt_def Let_def run_bind_def)
        next
          assume "\<exists>r h'. io_Copy env p resp ?h2 = Returned (r, h')"
          then obtain e0 h3 where c: "io_Copy env p resp ?h2 = Returned (e0, h3)" by blast
          with assms None Reply ok cr show ?thesis
            by (cases e0) (simp_all add: attempt_def Let_def run_bind_def)
        qed
      qed
    qed
  qed
qed

lemma retry_loop_fails:
  "retry_loop d env url p n lastErr h = Returned (Some err, h') \<Longrightarrow>
   map_of (disk h) p = None \<Longrightarrow>
     disk h' = disk h \<and>
     ((\<exists>e k. n \<le> k \<and> k < maxRetries d \<and>
         err = Wrap ''creating the destination file failed'' e \<and>
         create_error env (events h') p = Some e \<and>
         new_request env ''GET'' url = None \<and>
         events h' = events h @ concat (map (attempt_events d env url) [n..k])) \<or>
      (events h' = events h @ concat (map (attempt_events d env url) [n..maxRetries d - 1]) \<and>
       (if n < maxRetries d
        then (\<exists>cause h_pre. map_of (disk h_pre) p = None \<and>
                attempt env url p h_pre = Returned (Retry cause, h') \<and>
                err = Wrap ''download failed, giving up after the retries'' cause)
        else h' = h \<and>
             err = (case lastErr of
                      Some e \<Rightarrow> Wrap ''download failed, giving up after the retries'' e
                    | None \<Rightarrow> Err ''download failed, giving up after the retries''))))"
proof (induction d env url p n lastErr h rule: retry_loop.induct)
  case (1 d env url p n lastErr h)
  show ?case
  proof (cases "n < maxRetries d")
    case False
    then have "retry_loop d env url p n lastErr h =
        Returned (Some (case lastErr of
                     Some e \<Rightarrow> Wrap ''download failed, giving up after the retries'' e
                   | None \<Rightarrow> Err ''download failed, giving up after the retries''), h)"
      by (subst retry_loop.simps) simp
    with "1.prems" False show ?thesis by simp
  next
    case True
    define h0 where "h0 = (if n > 0 then observe (Slept (retryDelay d)) h else h)"
    have d0: "map_of (disk h0) p = None" using "1.prems"(2) by (simp add: h0_def observe_def)
    have k0: "disk h0 = disk h" by (simp add: h0_def observe_def)
    have e0: "events h0 = events h @ (if n > 0 then [Slept (retryDelay d)] else [])"
      by (simp add: h0_def observe_def)
    have unf: "retry_loop d env url p n lastErr h =
       (case attempt env url p h0 of
              Returned (Retry e, h1) \<Rightarrow> retry_loop d env url p (n + 1) (Some e) h1
            | Returned (Stop r, h1) \<Rightarrow> Returned (r, h1)
            | Panicked \<Rightarrow> Panicked
            | Blocked \<Rightarrow> Blocked)"
      using True by (subst retry_loop.simps) (simp add: h0_def Let_def)
    show ?thesis
    proof (cases "attempt env url p h0")
      case Panicked
      with unf "1.prems"(1) show ?thesis by simp
    next
      case Blocked
      with unf "1.prems"(1) show ?thesis by simp
    next
      case (Returned x)
      obtain a h1 where x: "x = (a, h1)" by (cases x)
      show ?thesis
      proof (cases a)
        case (Stop r)
        with unf Returned x "1.prems"(1) have "r = Some err" and hh: "h1 = h'"
          and at: "attempt env url p h0 = Returned (Stop (Some err), h1)"
          by simp_all
        from attempt_Stop_error [OF at] obtain e where
          e: "err = Wrap ''creating the destination file failed'' e"
            "create_error env (events h1) p = Some e"
            "new_request env ''GET'' url = None"
            "disk h1 = disk h0" "events h1 = events h0 @ gets env url"
          by blast
        have ev: "events h' = events h @ concat (map (attempt_events d env url) [n..n])"
          using e(5) e0 hh by (simp add: attempt_events_def)
        have "n \<le> n \<and> n < maxRetries d \<and>
           err = Wrap ''creating the destination file failed'' e \<and>
           create_error env (events h') p = Some e \<and>
           new_request env ''GET'' url = None \<and>
           events h' = events h @ concat (map (attempt_events d env url) [n..n])"
          using True e(1) e(2) e(3) hh ev by simp
        then have "\<exists>e k. n \<le> k \<and> k < maxRetries d \<and>
           err = Wrap ''creating the destination file failed'' e \<and>
           create_error env (events h') p = Some e \<and>
           new_request env ''GET'' url = None \<and>
           events h' = events h @ concat (map (attempt_events d env url) [n..k])"
          by (intro exI)
        moreover have "disk h' = disk h" using e(4) k0 hh by simp
        ultimately show ?thesis by blast
      next
        case (Retry e)
        have at: "attempt env url p h0 = Returned (Retry e, h1)" using Returned x Retry by simp
        from attempt_Retry [OF at d0] have k1: "disk h1 = disk h0"
          and e1: "events h1 = events h0 @ gets env url" by simp_all
        have d1: "map_of (disk h1) p = None" using k1 d0 by simp
        have rest: "retry_loop d env url p (n + 1) (Some e) h1 = Returned (Some err, h')"
          using unf at "1.prems"(1) by simp
        have ih: "disk h' = disk h1 \<and>
           ((\<exists>e k. n + 1 \<le> k \<and> k < maxRetries d \<and>
               err = Wrap ''creating the destination file failed'' e \<and>
               create_error env (events h') p = Some e \<and>
               new_request env ''GET'' url = None \<and>
               events h' = events h1 @ concat (map (attempt_events d env url) [n + 1..k])) \<or>
            (events h' = events h1 @ concat (map (attempt_events d env url) [n + 1..maxRetries d - 1]) \<and>
            (if n + 1 < maxRetries d
             then (\<exists>cause h_pre. map_of (disk h_pre) p = None \<and>
                     attempt env url p h_pre = Returned (Retry cause, h') \<and>
                     err = Wrap ''download failed, giving up after the retries'' cause)
             else h' = h1 \<and> err = Wrap ''download failed, giving up after the retries'' e)))"
          using "1.IH" [OF True h0_def at refl refl rest d1]
          by (simp only: option.case)
        have dk: "disk h' = disk h" using ih k1 k0 by simp
        have pre: "\<And>k. n + 1 \<le> k \<Longrightarrow>
            events h1 @ concat (map (attempt_events d env url) [n + 1..k])
            = events h @ concat (map (attempt_events d env url) [n..k])"
        proof -
          fix k :: int
          assume "n + 1 \<le> k"
          then have up: "[n..k] = n # [n + 1..k]" by (simp add: upto_rec1)
          show "events h1 @ concat (map (attempt_events d env url) [n + 1..k])
            = events h @ concat (map (attempt_events d env url) [n..k])"
            unfolding up e1 e0 by (simp add: attempt_events_def)
        qed
        have up: "[n..maxRetries d - 1] = n # [n + 1..maxRetries d - 1]"
          using True by (simp add: upto_rec1)
        have ev: "events h1 @ concat (map (attempt_events d env url) [n + 1..maxRetries d - 1])
            = events h @ concat (map (attempt_events d env url) [n..maxRetries d - 1])"
          unfolding up e1 e0 by (simp add: attempt_events_def)
        from ih have "(\<exists>e k. n + 1 \<le> k \<and> k < maxRetries d \<and>
               err = Wrap ''creating the destination file failed'' e \<and>
               create_error env (events h') p = Some e \<and>
               new_request env ''GET'' url = None \<and>
               events h' = events h1 @ concat (map (attempt_events d env url) [n + 1..k])) \<or>
            (events h' = events h1 @ concat (map (attempt_events d env url) [n + 1..maxRetries d - 1]) \<and>
            (if n + 1 < maxRetries d
             then (\<exists>cause h_pre. map_of (disk h_pre) p = None \<and>
                     attempt env url p h_pre = Returned (Retry cause, h') \<and>
                     err = Wrap ''download failed, giving up after the retries'' cause)
             else h' = h1 \<and> err = Wrap ''download failed, giving up after the retries'' e))"
          by simp
        then show ?thesis
        proof
          assume "\<exists>e k. n + 1 \<le> k \<and> k < maxRetries d \<and>
               err = Wrap ''creating the destination file failed'' e \<and>
               create_error env (events h') p = Some e \<and>
               new_request env ''GET'' url = None \<and>
               events h' = events h1 @ concat (map (attempt_events d env url) [n + 1..k])"
          then obtain e2 k where k: "n + 1 \<le> k" "k < maxRetries d"
               "err = Wrap ''creating the destination file failed'' e2"
               "create_error env (events h') p = Some e2"
               "new_request env ''GET'' url = None"
               "events h' = events h1 @ concat (map (attempt_events d env url) [n + 1..k])"
            by blast
          have "n \<le> k \<and> k < maxRetries d \<and>
             err = Wrap ''creating the destination file failed'' e2 \<and>
             create_error env (events h') p = Some e2 \<and>
             new_request env ''GET'' url = None \<and>
             events h' = events h @ concat (map (attempt_events d env url) [n..k])"
            using k pre [OF k(1)] by simp
          then have "\<exists>e k. n \<le> k \<and> k < maxRetries d \<and>
             err = Wrap ''creating the destination file failed'' e \<and>
             create_error env (events h') p = Some e \<and>
             new_request env ''GET'' url = None \<and>
             events h' = events h @ concat (map (attempt_events d env url) [n..k])"
            by (intro exI)
          with dk show ?thesis by blast
        next
          assume r: "events h' = events h1 @ concat (map (attempt_events d env url) [n + 1..maxRetries d - 1]) \<and>
            (if n + 1 < maxRetries d
             then (\<exists>cause h_pre. map_of (disk h_pre) p = None \<and>
                     attempt env url p h_pre = Returned (Retry cause, h') \<and>
                     err = Wrap ''download failed, giving up after the retries'' cause)
             else h' = h1 \<and> err = Wrap ''download failed, giving up after the retries'' e)"
          have "\<exists>cause h_pre. map_of (disk h_pre) p = None \<and>
                     attempt env url p h_pre = Returned (Retry cause, h') \<and>
                     err = Wrap ''download failed, giving up after the retries'' cause"
          proof (cases "n + 1 < maxRetries d")
            case True
            with r show ?thesis by simp
          next
            case False
            with r have "h' = h1" and "err = Wrap ''download failed, giving up after the retries'' e"
              by simp_all
            with at d0 show ?thesis by blast
          qed
          with r ev True dk show ?thesis by simp
        qed
      qed
    qed
  qed
qed


lemma failing_store_run:
  "Download NewOSSDownloader failing_store store_url dest empty_host =
     Returned (Some (Wrap ''download failed, giving up after the retries''
                       (Wrap ''downloading the file failed'' (Err ''unexpected EOF''))),
               \<lparr>disk = [], directories = [''/tmp''],
                 events = [HttpGet store_url, Slept 5000000000, HttpGet store_url,
                           Slept 5000000000, HttpGet store_url]\<rparr>)"
  by (simp add: Download_def DownloadWithProgress_def os_MkdirAll_def os_Stat_ok_def dir_exists_def
        attempt_def observe_def Let_def NewOSSDownloader_def failing_store_def empty_host_def dest_def
        io_Copy_def run_bind_def remove_file_def broken_body_def os_Create_def write_file_def
        append_file_def file_content_def)

lemma third_attempt_copy:
  "os_Create failing_store dest third_attempt_start
     = (None, third_attempt_start\<lparr>disk := [(dest, [])]\<rparr>) \<and>
   io_Copy failing_store dest broken_body (third_attempt_start\<lparr>disk := [(dest, [])]\<rparr>)
     = Returned (Some (Err ''unexpected EOF''), third_attempt_start\<lparr>disk := [(dest, ''partial'')]\<rparr>) \<and>
   remove_file dest (third_attempt_start\<lparr>disk := [(dest, ''partial'')]\<rparr>) = third_attempt_start"
  by (simp add: os_Create_def io_Copy_def run_bind_def remove_file_def write_file_def
        append_file_def file_content_def failing_store_def third_attempt_start_def broken_body_def)


section \<open>The loop of the detector\<close>

lemma detect_loop_miss:
  "s \<le> 10 \<Longrightarrow> \<not> probe_hit env (candidate_url b p hour s) h \<Longrightarrow>
     detect_loop env hour b p s h =
       detect_loop env hour b p (s + 1) (snd (Exists env (candidate_url b p hour s) h))"
proof -
  assume s: "s \<le> 10" and m: "\<not> probe_hit env (candidate_url b p hour s) h"
  obtain found sz err h1 where e: "Exists env (candidate_url b p hour s) h = ((found, sz, err), h1)"
    by (metis surj_pair)
  show ?thesis
  proof (cases err)
    case None
    with m e have "\<not> found" by (simp add: probe_hit_def)
    with s e None show ?thesis by (subst detect_loop.simps) simp
  next
    case (Some e0)
    with s e show ?thesis by (subst detect_loop.simps) simp
  qed
qed

lemma detect_loop_hit:
  "s \<le> 10 \<Longrightarrow> probe_hit env (candidate_url b p hour s) h \<Longrightarrow>
     detect_loop env hour b p s h =
       ((candidate_timestamp hour s, None), snd (Exists env (candidate_url b p hour s) h))"
proof -
  assume s: "s \<le> 10" and m: "probe_hit env (candidate_url b p hour s) h"
  obtain found sz err h1 where e: "Exists env (candidate_url b p hour s) h = ((found, sz, err), h1)"
    by (metis surj_pair)
  with m have "err = None" and "found" by (simp_all add: probe_hit_def)
  with s e show ?thesis by (subst detect_loop.simps) simp
qed

lemma probed_step:
  "s \<le> k \<Longrightarrow> probed env (map u [s..k]) h = probed env (map u [s + 1..k]) (snd (Exists env (u s) h))"
  by (simp add: probed_def upto_rec1)

lemma detect_first_hit:
  "nat (k - s) = n \<Longrightarrow> s \<le> k \<Longrightarrow> k \<le> 10 \<Longrightarrow>
   probe_hit env (candidate_url b p hour k) (probed env (map (candidate_url b p hour) [s..k - 1]) h) \<Longrightarrow>
   (\<forall>j. s \<le> j \<and> j < k \<longrightarrow>
      \<not> probe_hit env (candidate_url b p hour j) (probed env (map (candidate_url b p hour) [s..j - 1]) h)) \<Longrightarrow>
   detect_loop env hour b p s h =
     ((candidate_timestamp hour k, None), probed env (map (candidate_url b p hour) [s..k]) h)"
proof (induction n arbitrary: s h)
  case 0
  then have sk: "s = k" by simp
  have "probe_hit env (candidate_url b p hour k) h"
    using "0.prems"(4) sk by (simp add: probed_def)
  from detect_loop_hit [OF "0.prems"(3) this] show ?case
    unfolding sk by (simp add: probed_def)
next
  case (Suc n)
  then have lt: "s < k" by simp
  let ?u = "candidate_url b p hour"
  let ?h1 = "snd (Exists env (?u s) h)"
  have miss: "\<not> probe_hit env (?u s) h"
    using Suc.prems(5) lt by (auto simp: probed_def)
  have s10: "s \<le> 10" using lt Suc.prems(3) by simp
  have step: "detect_loop env hour b p s h = detect_loop env hour b p (s + 1) ?h1"
    using detect_loop_miss [OF s10 miss] .
  have n1: "nat (k - (s + 1)) = n" using Suc.prems(1) by simp
  have le1: "s + 1 \<le> k" using lt by simp
  have hitk: "probe_hit env (?u k) (probed env (map ?u [s + 1..k - 1]) ?h1)"
    using Suc.prems(4) probed_step [of s "k - 1" env ?u h] lt by simp
  have misses: "\<forall>j. s + 1 \<le> j \<and> j < k \<longrightarrow>
      \<not> probe_hit env (?u j) (probed env (map ?u [s + 1..j - 1]) ?h1)"
  proof (intro allI impI)
    fix j assume j: "s + 1 \<le> j \<and> j < k"
    then have "\<not> probe_hit env (?u j) (probed env (map ?u [s..j - 1]) h)"
      using Suc.prems(5) by simp
    then show "\<not> probe_hit env (?u j) (probed env (map ?u [s + 1..j - 1]) ?h1)"
      using probed_step [of s "j - 1" env ?u h] j by simp
  qed
  from Suc.IH [OF n1 le1 Suc.prems(3) hitk misses]
  show ?case unfolding step using probed_step [of s k env ?u h] lt by simp
qed

lemma detect_no_hit:
  "nat (11 - s) = n \<Longrightarrow> s \<le> 11 \<Longrightarrow>
   (\<forall>j. s \<le> j \<and> j \<le> 10 \<longrightarrow>
      \<not> probe_hit env (candidate_url b p hour j) (probed env (map (candidate_url b p hour) [s..j - 1]) h)) \<Longrightarrow>
   detect_loop env hour b p s h =
     (([], Some (Err ''no matching backup file found'')),
      probed env (map (candidate_url b p hour) [s..10]) h)"
proof (induction n arbitrary: s h)
  case 0
  then have "s = 11" by simp
  then show ?case by (subst detect_loop.simps) (simp add: probed_def)
next
  case (Suc n)
  then have s10: "s \<le> 10" by simp
  let ?u = "candidate_url b p hour"
  let ?h1 = "snd (Exists env (?u s) h)"
  have miss: "\<not> probe_hit env (?u s) h"
    using Suc.prems(3) s10 by (auto simp: probed_def)
  have step: "detect_loop env hour b p s h = detect_loop env hour b p (s + 1) ?h1"
    using detect_loop_miss [OF s10 miss] .
  have n1: "nat (11 - (s + 1)) = n" using Suc.prems(1) by simp
  have le1: "s + 1 \<le> 11" using s10 by simp
  have misses: "\<forall>j. s + 1 \<le> j \<and> j \<le> 10 \<longrightarrow>
      \<not> probe_hit env (?u j) (probed env (map ?u [s + 1..j - 1]) ?h1)"
  proof (intro allI impI)
    fix j assume j: "s + 1 \<le> j \<and> j \<le> 10"
    then have "\<not> probe_hit env (?u j) (probed env (map ?u [s..j - 1]) h)"
      using Suc.prems(3) by simp
    then show "\<not> probe_hit env (?u j) (probed env (map ?u [s + 1..j - 1]) ?h1)"
      using probed_step [of s "j - 1" env ?u h] j by simp
  qed
  from Suc.IH [OF n1 le1 misses]
  show ?case unfolding step using probed_step [of s 10 env ?u h] s10 by simp
qed

lemma seconds_two_digits:
  "map fmt_02d [1..10] = [''01'', ''02'', ''03'', ''04'', ''05'', ''06'', ''07'', ''08'', ''09'', ''10'']"
  by code_simp

lemma demo_probes:
  "probed archive_store (map demo_candidate [1..0]) empty_host = empty_host"
  "probed archive_store (map demo_candidate [1..1]) empty_host =
     \<lparr>disk = [], directories = [''/tmp''], events = [HttpHead (demo_candidate 1)]\<rparr>"
  "probed archive_store (map demo_candidate [1..2]) empty_host =
     \<lparr>disk = [], directories = [''/tmp''],
       events = [HttpHead (demo_candidate 1), HttpHead (demo_candidate 2)]\<rparr>"
  "probed archive_store (map demo_candidate [1..3]) empty_host =
     \<lparr>disk = [], directories = [''/tmp''],
       events = [HttpHead (demo_candidate 1), HttpHead (demo_candidate 2), HttpHead (demo_candidate 3)]\<rparr>"
  by (simp_all add: probed_def upto.simps Exists_def observe_def Let_def archive_store_def empty_host_def)

lemma demo_stamp: "candidate_timestamp ''2024010110'' 3 = ''20240101103503''"
  by code_simp


section \<open>The executor does not remember a failed resolution\<close>

lemma Exec_unresolved:
  "container (exe w) = [] \<Longrightarrow> resolution_fails cl w \<Longrightarrow>
   \<exists>e. Exec cl command w =
         Returned (([], [], Some e), do_call (PodsGet (namespace (exe w)) (podName (exe w))) w)"
  by (auto simp: Exec_def getContainerName_def resolution_fails_def bindP_def ret_def
        do_call_def Let_def split: sum.splits list.splits)

lemma Exec_resolves:
  "container (exe w) = [] \<Longrightarrow> \<not> resolution_fails cl w \<Longrightarrow> command \<noteq> [] \<Longrightarrow>
   \<exists>c0 cs. get_reply cl (calls w @ [PodsGet (namespace (exe w)) (podName (exe w))]) = Inr (c0 # cs) \<and>
     Exec cl command w =
       stream cl c0 command
         ((do_call (PodsGet (namespace (exe w)) (podName (exe w))) w)
            \<lparr>exe := (exe w)\<lparr>container := c0\<rparr>\<rparr>)"
  by (auto simp: Exec_def getContainerName_def resolution_fails_def bindP_def ret_def
        do_call_def Let_def split: sum.splits list.splits)

text \<open>
  C4, as the code has it. When the executor has no cached container and the resolution of
  its first \<open>Exec\<close> fails, that call returns the error after the one Pods.Get request and
  leaves the executor as it was, with nothing cached. So the next \<open>Exec\<close> on the same
  executor asks the cluster again: it fails in the same way when that second resolution fails,
  and when the second resolution succeeds it goes on to run the command in the first container
  of the pod.
\<close>

theorem failed_resolution_is_retried:
  assumes "container (exe w) = []" and "resolution_fails cl w"
  shows "\<exists>e w1. Exec cl command w = Returned (([], [], Some e), w1) \<and>
           exe w1 = exe w \<and>
           calls w1 = calls w @ [PodsGet (namespace (exe w)) (podName (exe w))] \<and>
           (resolution_fails cl w1 \<longrightarrow>
              (\<exists>e'. Exec cl command' w1 =
                 Returned (([], [], Some e'),
                   do_call (PodsGet (namespace (exe w)) (podName (exe w))) w1))) \<and>
           (\<not> resolution_fails cl w1 \<and> command' \<noteq> [] \<longrightarrow>
              (\<exists>c0 cs.
                 get_reply cl (calls w1 @ [PodsGet (namespace (exe w)) (podName (exe w))])
                   = Inr (c0 # cs) \<and>
                 Exec cl command' w1 =
                   stream cl c0 command'
                     ((do_call (PodsGet (namespace (exe w)) (podName (exe w))) w1)
                        \<lparr>exe := (exe w)\<lparr>container := c0\<rparr>\<rparr>)))"
proof -
  define w1 where "w1 = do_call (PodsGet (namespace (exe w)) (podName (exe w))) w"
  obtain e where e: "Exec cl command w = Returned (([], [], Some e), w1)"
    using Exec_unresolved [OF assms] unfolding w1_def by blast
  have same: "exe w1 = exe w" by (simp add: w1_def do_call_def)
  have cs: "calls w1 = calls w @ [PodsGet (namespace (exe w)) (podName (exe w))]"
    by (simp add: w1_def do_call_def)
  have empty: "container (exe w1) = []" using assms(1) same by simp
  have again: "resolution_fails cl w1 \<longrightarrow>
      (\<exists>e'. Exec cl command' w1 =
         Returned (([], [], Some e'), do_call (PodsGet (namespace (exe w)) (podName (exe w))) w1))"
    using Exec_unresolved [OF empty, of cl command'] same by auto
  have recovers: "\<not> resolution_fails cl w1 \<and> command' \<noteq> [] \<longrightarrow>
      (\<exists>c0 cs.
         get_reply cl (calls w1 @ [PodsGet (namespace (exe w)) (podName (exe w))]) = Inr (c0 # cs) \<and>
         Exec cl command' w1 =
           stream cl c0 command'
             ((do_call (PodsGet (namespace (exe w)) (podName (exe w))) w1)
                \<lparr>exe := (exe w)\<lparr>container := c0\<rparr>\<rparr>))"
    using Exec_resolves [OF empty, of cl command'] same by auto
  from e same cs again recovers show ?thesis by blast
qed

text \<open>
  C4 as stated fails. On a cluster whose first Pods.Get fails and whose second one answers,
  the first \<open>Exec\<close> of a new executor fails in the resolution, and the second \<open>Exec\<close> of the
  same executor resolves the container with a second Pods.Get, runs the command and succeeds.
\<close>

theorem failed_resolution_not_permanent:
  "Exec flaky_cluster [''sh'', ''-c'', ''true''] fresh_world =
     Returned (([], [], Some (Wrap ''get pod info failed'' (Err ''connection refused''))),
       \<lparr>exe = NewExecutor ''ems'' ''iotdb-0'', calls = [PodsGet ''ems'' ''iotdb-0'']\<rparr>) \<and>
   Exec flaky_cluster [''sh'', ''-c'', ''true'']
       \<lparr>exe = NewExecutor ''ems'' ''iotdb-0'', calls = [PodsGet ''ems'' ''iotdb-0'']\<rparr> =
     Returned ((''done'', [], None),
       \<lparr>exe = \<lparr>namespace = ''ems'', podName = ''iotdb-0'', container = ''iotdb''\<rparr>,
        calls = [PodsGet ''ems'' ''iotdb-0'', PodsGet ''ems'' ''iotdb-0'',
                 PodExec ''ems'' ''iotdb-0'' ''iotdb'' [''sh'', ''-c'', ''true'']]\<rparr>)"
  by (simp add: Exec_def getContainerName_def bindP_def ret_def do_call_def Let_def
        flaky_cluster_def fresh_world_def NewExecutor_def stream_def stream_result_def ok_reply_def)

theorem failed_resolution_is_retried_witness:
  "container (exe fresh_world) = [] \<and> resolution_fails flaky_cluster fresh_world \<and>
   (\<exists>e w1. Exec flaky_cluster [''sh'', ''-c'', ''true''] fresh_world = Returned (([], [], Some e), w1) \<and>
      \<not> resolution_fails flaky_cluster w1 \<and>
      (\<exists>c0. Exec flaky_cluster [''sh'', ''-c'', ''true''] w1 =
         stream flaky_cluster c0 [''sh'', ''-c'', ''true'']
           ((do_call (PodsGet ''ems'' ''iotdb-0'') w1)
              \<lparr>exe := (exe fresh_world)\<lparr>container := c0\<rparr>\<rparr>)))"
proof -
  have a: "container (exe fresh_world) = []"
    by (simp add: fresh_world_def NewExecutor_def)
  have b: "resolution_fails flaky_cluster fresh_world"
    by (simp add: resolution_fails_def flaky_cluster_def fresh_world_def NewExecutor_def)
  from failed_resolution_is_retried [OF a b, of "[''sh'', ''-c'', ''true'']" "[''sh'', ''-c'', ''true'']"]
  obtain e w1 where
    e: "Exec flaky_cluster [''sh'', ''-c'', ''true''] fresh_world = Returned (([], [], Some e), w1)"
    and x: "exe w1 = exe fresh_world"
    and c: "calls w1 = calls fresh_world @ [PodsGet (namespace (exe fresh_world)) (podName (exe fresh_world))]"
    and r: "\<not> resolution_fails flaky_cluster w1 \<and> [''sh'', ''-c'', ''true''] \<noteq> [] \<longrightarrow>
      (\<exists>c0 cs.
         get_reply flaky_cluster
           (calls w1 @ [PodsGet (namespace (exe fresh_world)) (podName (exe fresh_world))]) = Inr (c0 # cs) \<and>
         Exec flaky_cluster [''sh'', ''-c'', ''true''] w1 =
           stream flaky_cluster c0 [''sh'', ''-c'', ''true'']
             ((do_call (PodsGet (namespace (exe fresh_world)) (podName (exe fresh_world))) w1)
                \<lparr>exe := (exe fresh_world)\<lparr>container := c0\<rparr>\<rparr>))"
    by blast
  have nf: "\<not> resolution_fails flaky_cluster w1"
    using x c by (simp add: resolution_fails_def flaky_cluster_def fresh_world_def NewExecutor_def)
  have names: "namespace (exe fresh_world) = ''ems''" "podName (exe fresh_world) = ''iotdb-0''"
    by (simp_all add: fresh_world_def NewExecutor_def)
  from r nf names obtain c0 where
    "Exec flaky_cluster [''sh'', ''-c'', ''true''] w1 =
       stream flaky_cluster c0 [''sh'', ''-c'', ''true'']
         ((do_call (PodsGet ''ems'' ''iotdb-0'') w1)\<lparr>exe := (exe fresh_world)\<lparr>container := c0\<rparr>\<rparr>)"
    by auto
  with a b e nf show ?thesis by blast
qed

section \<open>The counters of Import\<close>

text \<open>
  C1. Whenever a call of \<open>Import\<close> completes, whatever the outcome of each file's load,
  the result has \<open>SuccessCount + FailedCount = TotalFiles\<close>, \<open>TotalFiles\<close> is the length
  of the file list, and the returned error is nil. The call does complete whenever the batch
  size and the concurrency are positive (with a batch size below one the loop panics on a
  non-empty list, with a concurrency of zero its first batch never finishes).
\<close>

theorem import_counts_add_up:
  "(Import cl cfg files w = Returned ((r, err), w') \<longrightarrow>
      ImportResult.SuccessCount r + ImportResult.FailedCount r = ImportResult.TotalFiles r \<and>
      ImportResult.TotalFiles r = len files \<and> err = None) \<and>
   (0 < BatchSize (ImportConf cfg) \<and> 0 < Concurrency (ImportConf cfg) \<longrightarrow>
      (\<exists>r w'. Import cl cfg files w = Returned ((r, None), w')))"
proof -
  let ?acc0 = "\<lparr>successCount = 0, failedCount = 0, batches = []\<rparr>"
  have part1: "ImportResult.SuccessCount r + ImportResult.FailedCount r = ImportResult.TotalFiles r \<and>
      ImportResult.TotalFiles r = len files \<and> err = None"
    if a: "Import cl cfg files w = Returned ((r, err), w')"
  proof -
    have c: "\<not> Concurrency (ImportConf cfg) < 0"
    proof
      assume "Concurrency (ImportConf cfg) < 0"
      then have "Import cl cfg files w = Panicked" by (simp add: Import_def)
      with a show False by simp
    qed
    have unf: "Import cl cfg files w =
        bindP (import_loop cl cfg files 0 ?acc0)
          (\<lambda>acc. ret (\<lparr>ImportResult.TotalFiles = len files,
                         ImportResult.SuccessCount = successCount acc,
                         ImportResult.FailedCount = failedCount acc\<rparr>, None)) w"
      using c by (simp add: Import_def)
    show ?thesis
    proof (cases "import_loop cl cfg files 0 ?acc0 w")
      case (Returned x)
      obtain acc w1 where x: "x = (acc, w1)" by (cases x)
      have l: "import_loop cl cfg files 0 ?acc0 w = Returned (acc, w1)"
        using Returned x by simp
      have "Import cl cfg files w =
          Returned ((\<lparr>ImportResult.TotalFiles = len files,
                      ImportResult.SuccessCount = successCount acc,
                      ImportResult.FailedCount = failedCount acc\<rparr>, None), w1)"
        unfolding unf using l by (simp add: bindP_def ret_def)
      with a have res: "r = \<lparr>ImportResult.TotalFiles = len files,
                  ImportResult.SuccessCount = successCount acc,
                  ImportResult.FailedCount = failedCount acc\<rparr>" and e: "err = None"
        by simp_all
      from import_loop_spec [OF l] have "successCount acc + failedCount acc = len files"
        by simp
      with res e show ?thesis by simp
    next
      case Panicked
      then have "Import cl cfg files w = Panicked" unfolding unf by (simp add: bindP_def)
      with a show ?thesis by simp
    next
      case Blocked
      then have "Import cl cfg files w = Blocked" unfolding unf by (simp add: bindP_def)
      with a show ?thesis by simp
    qed
  qed
  have part2: "\<exists>r w'. Import cl cfg files w = Returned ((r, None), w')"
    if b: "0 < BatchSize (ImportConf cfg)" and c: "0 < Concurrency (ImportConf cfg)"
  proof -
    have "\<exists>x. import_loop cl cfg files 0 ?acc0 w = Returned x"
      using import_loop_returns [of 0 cfg cl files ?acc0 w] b c by simp
    then obtain x where x: "import_loop cl cfg files 0 ?acc0 w = Returned x" by blast
    obtain acc w1 where xx: "x = (acc, w1)" by (cases x)
    have "Import cl cfg files w =
          Returned ((\<lparr>ImportResult.TotalFiles = len files,
                      ImportResult.SuccessCount = successCount acc,
                      ImportResult.FailedCount = failedCount acc\<rparr>, None), w1)"
      using c x xx by (simp add: Import_def bindP_def ret_def)
    then show ?thesis by blast
  qed
  from part1 part2 show ?thesis by blast
qed


theorem import_counts_add_up_witness:
  "0 < BatchSize (ImportConf demo_config) \<and> 0 < Concurrency (ImportConf demo_config) \<and>
   (\<exists>r w'. Import picky_cluster demo_config seven_files fresh_world = Returned ((r, None), w') \<and>
      ImportResult.SuccessCount r + ImportResult.FailedCount r = 7 \<and> ImportResult.TotalFiles r = 7)"
proof -
  have h: "0 < BatchSize (ImportConf demo_config) \<and> 0 < Concurrency (ImportConf demo_config)"
    by (simp add: demo_config_def)
  from import_counts_add_up [where cl = picky_cluster and cfg = demo_config
      and files = seven_files and w = fresh_world] h
  obtain r w' where r: "Import picky_cluster demo_config seven_files fresh_world = Returned ((r, None), w')"
    by blast
  have n: "len seven_files = 7" by (simp add: len_def seven_files_def)
  from import_counts_add_up [of picky_cluster demo_config seven_files fresh_world r None w'] r n
  have "ImportResult.SuccessCount r + ImportResult.FailedCount r = 7 \<and> ImportResult.TotalFiles r = 7"
    by simp
  with h r show ?thesis by blast
qed

text \<open>
  The scenario of the specification: seven files, batches of three, \<open>f4\<close> fails. The run
  reports seven files, six loaded and one failed.
\<close>

lemma scenario_import:
  "\<exists>w'. Import picky_cluster demo_config seven_files fresh_world =
      Returned ((\<lparr>ImportResult.TotalFiles = 7, ImportResult.SuccessCount = 6, ImportResult.FailedCount = 1\<rparr>, None), w')"
  by (simp add: Import_def import_iter_def Let_def bindP_def ret_def liftR_def slice_def len_def
       logMemoryUsage_def memory_command_def ExecSimple_def Exec_def getContainerName_def stream_def stream_result_def
       run_batch_def importSingleFile_def containsSuccess_def contains_sublist run_bind_def
       sleep_seconds_def do_call_def load_command_def sq_def dq_def
       picky_cluster_def demo_config_def seven_files_def fresh_world_def NewExecutor_def
       loaded_reply_def rejected_reply_def sublist_Cons_right prefix_code)

section \<open>The batches cover the manifest\<close>

text \<open>
  C2. For a manifest of N files and a batch size B > 0: a completed \<open>Import\<close> is a
  completed run of its loop from \<open>i = 0\<close>; the values the variable \<open>batch\<close> takes in a
  completed run of that loop, and the \<open>Files\<close> of the batches a completed
  \<open>ProcessBatches\<close> returns, are the slices \<open>files[k*B : k*B+B]\<close> (cut at N) for
  \<open>k = 0, ..., ceil(N/B) - 1\<close> in this order; their concatenation is the manifest; the
  batches are numbered from one; \<open>ProcessBatches\<close> returns no error. The loop of \<open>Import\<close>
  completes when the concurrency is positive, and so does \<open>ProcessBatches\<close> when also
  \<open>N + B - 1\<close> is within the range of \<open>int\<close>.
\<close>

theorem batches_partition_manifest:
  assumes b: "0 < BatchSize (ImportConf cfg)"
  shows "(Import cl cfg files w = Returned (x, wi) \<longrightarrow>
            (\<exists>acc. import_loop cl cfg files 0 \<lparr>successCount = 0, failedCount = 0, batches = []\<rparr> w
                     = Returned (acc, wi))) \<and>
         (import_loop cl cfg files 0 \<lparr>successCount = 0, failedCount = 0, batches = []\<rparr> w
            = Returned (acc, w') \<longrightarrow>
          batches acc =
            map (\<lambda>k. take (nat (BatchSize (ImportConf cfg))) (drop (k * nat (BatchSize (ImportConf cfg))) files))
              [0..<nat ((len files + BatchSize (ImportConf cfg) - 1) div BatchSize (ImportConf cfg))] \<and>
          concat (batches acc) = files) \<and>
         (ProcessBatches cl (NewBatcher cfg) files w = Returned ((bs, err), w'') \<longrightarrow>
          err = None \<and>
          map Files bs =
            map (\<lambda>k. take (nat (BatchSize (ImportConf cfg))) (drop (k * nat (BatchSize (ImportConf cfg))) files))
              [0..<nat ((len files + BatchSize (ImportConf cfg) - 1) div BatchSize (ImportConf cfg))] \<and>
          map Number bs = map (\<lambda>k. int k + 1) [0..<length bs] \<and>
          concat (map Files bs) = files) \<and>
         (0 < Concurrency (ImportConf cfg) \<longrightarrow>
            (\<exists>x. import_loop cl cfg files 0 \<lparr>successCount = 0, failedCount = 0, batches = []\<rparr> w
                   = Returned x) \<and>
            (len files + BatchSize (ImportConf cfg) - 1 < 2 ^ 63 \<longrightarrow>
               (\<exists>y. ProcessBatches cl (NewBatcher cfg) files w = Returned y)))"
proof (intro conjI impI)
  assume "Import cl cfg files w = Returned (x, wi)"
  then show "\<exists>acc. import_loop cl cfg files 0 \<lparr>successCount = 0, failedCount = 0, batches = []\<rparr> w
                     = Returned (acc, wi)"
    by (rule Import_runs_loop)
next
  let ?B = "BatchSize (ImportConf cfg)"
  assume l: "import_loop cl cfg files 0 \<lparr>successCount = 0, failedCount = 0, batches = []\<rparr> w
            = Returned (acc, w')"
  from import_loop_spec [OF l] have ch: "batches acc = chunks (nat ?B) files" by simp
  show "batches acc = map (\<lambda>k. take (nat ?B) (drop (k * nat ?B) files))
              [0..<nat ((len files + ?B - 1) div ?B)]"
    unfolding ch using slices_of_chunks [OF b] .
  show "concat (batches acc) = files"
    unfolding ch using concat_chunks [of "nat ?B" files] b by simp
next
  let ?B = "BatchSize (ImportConf cfg)"
  assume p: "ProcessBatches cl (NewBatcher cfg) files w = Returned ((bs, err), w'')"
  have bb: "batchSize (NewBatcher cfg) = ?B" by (simp add: NewBatcher_def)
  have l: "process_loop cl (NewBatcher cfg) files 0 [] w = Returned ((bs, err), w'')"
    using p b bb by (simp add: ProcessBatches_def split: if_splits)
  from process_loop_spec [OF l] have e: "err = None"
    and ch: "map Files bs = chunks (nat ?B) files"
    and nu: "map Number bs = map (\<lambda>k. int k + 1) [0..<length bs]"
    by (simp_all add: bb len_def)
  show "err = None" by (rule e)
  show "map Files bs = map (\<lambda>k. take (nat ?B) (drop (k * nat ?B) files))
              [0..<nat ((len files + ?B - 1) div ?B)]"
    unfolding ch using slices_of_chunks [OF b] .
  show "map Number bs = map (\<lambda>k. int k + 1) [0..<length bs]" by (rule nu)
  show "concat (map Files bs) = files"
    unfolding ch using concat_chunks [of "nat ?B" files] b by simp
next
  assume c: "0 < Concurrency (ImportConf cfg)"
  show "\<exists>x. import_loop cl cfg files 0 \<lparr>successCount = 0, failedCount = 0, batches = []\<rparr> w = Returned x"
    using import_loop_returns [of 0 cfg cl files _ w] b c by simp
next
  let ?B = "BatchSize (ImportConf cfg)"
  assume c: "0 < Concurrency (ImportConf cfg)"
    and range: "len files + ?B - 1 < 2 ^ 63"
  have bb: "batchSize (NewBatcher cfg) = ?B" "concurrency (NewBatcher cfg) = Concurrency (ImportConf cfg)"
    by (simp_all add: NewBatcher_def)
  have nneg: "0 \<le> len files + ?B - 1" using b by (simp add: len_def)
  have w1: "wrap64 (len files + ?B - 1) = len files + ?B - 1"
    using wrap64_id [OF nneg range] .
  have q0: "0 \<le> (len files + ?B - 1) div ?B"
    using nneg b by (simp only: pos_imp_zdiv_nonneg_iff)
  have q1: "(len files + ?B - 1) div ?B \<le> len files + ?B - 1"
    using zdiv_mono2 [OF nneg, of 1 ?B] b by simp
  have sd: "(len files + ?B - 1) sdiv ?B = (len files + ?B - 1) div ?B"
    using sdiv_nonneg [OF nneg b] .
  have w2: "wrap64 ((len files + ?B - 1) div ?B) = (len files + ?B - 1) div ?B"
    using q0 q1 range by (intro wrap64_id) simp_all
  have nn: "\<not> wrap64 (wrap64 (len files + ?B - 1) sdiv ?B) < 0"
    unfolding w1 sd w2 using q0 by simp
  obtain y where "process_loop cl (NewBatcher cfg) files 0 [] w = Returned y"
    using process_loop_returns [of 0 "NewBatcher cfg" cl files "[]" w] b c bb by auto
  then show "\<exists>y. ProcessBatches cl (NewBatcher cfg) files w = Returned y"
    using b bb nn by (simp add: ProcessBatches_def)
qed

theorem batches_partition_manifest_witness:
  "0 < BatchSize (ImportConf demo_config) \<and>
   (\<exists>acc w'. import_loop picky_cluster demo_config seven_files 0
                \<lparr>successCount = 0, failedCount = 0, batches = []\<rparr> fresh_world = Returned (acc, w') \<and>
      batches acc = [[''f1'', ''f2'', ''f3''], [''f4'', ''f5'', ''f6''], [''f7'']]) \<and>
   (\<exists>bs w'. ProcessBatches picky_cluster (NewBatcher demo_config) seven_files fresh_world
               = Returned ((bs, None), w') \<and>
      map Files bs = [[''f1'', ''f2'', ''f3''], [''f4'', ''f5'', ''f6''], [''f7'']] \<and>
      map Number bs = [1, 2, 3])"
proof -
  let ?acc0 = "\<lparr>successCount = 0, failedCount = 0, batches = []\<rparr>"
  have h: "0 < BatchSize (ImportConf demo_config)" by (simp add: demo_config_def)
  have c: "0 < Concurrency (ImportConf demo_config)" by (simp add: demo_config_def)
  have sl: "map (\<lambda>k. take (nat (BatchSize (ImportConf demo_config)))
                (drop (k * nat (BatchSize (ImportConf demo_config))) seven_files))
              [0..<nat ((len seven_files + BatchSize (ImportConf demo_config) - 1)
                         div BatchSize (ImportConf demo_config))]
            = [[''f1'', ''f2'', ''f3''], [''f4'', ''f5'', ''f6''], [''f7'']]"
    by (simp add: demo_config_def seven_files_def len_def upt_rec)
  have rg: "len seven_files + BatchSize (ImportConf demo_config) - 1 < 2 ^ 63"
    by (simp add: len_def seven_files_def demo_config_def)
  from batches_partition_manifest [OF h, where cl = picky_cluster and files = seven_files
      and w = fresh_world] c rg
  obtain x y where x: "import_loop picky_cluster demo_config seven_files 0 ?acc0 fresh_world = Returned x"
    and y: "ProcessBatches picky_cluster (NewBatcher demo_config) seven_files fresh_world = Returned y"
    by blast
  obtain acc w1 where xx: "x = (acc, w1)" by (cases x)
  obtain bs err w2 where yy: "y = ((bs, err), w2)" by (cases y) auto
  from batches_partition_manifest [OF h, where cl = picky_cluster and files = seven_files
      and w = fresh_world and acc = acc and w' = w1 and bs = bs and err = err and w'' = w2]
    x y xx yy sl
  have a: "batches acc = [[''f1'', ''f2'', ''f3''], [''f4'', ''f5'', ''f6''], [''f7'']]"
    and e: "err = None"
    and f: "map Files bs = [[''f1'', ''f2'', ''f3''], [''f4'', ''f5'', ''f6''], [''f7'']]"
    and n: "map Number bs = map (\<lambda>k. int k + 1) [0..<length bs]"
    by simp_all
  have "length (map Files bs) = 3" unfolding f by simp
  then have "length bs = 3" by simp
  with n have m: "map Number bs = [1, 2, 3]" by (simp add: upt_rec)
  have p1: "\<exists>acc w'. import_loop picky_cluster demo_config seven_files 0 ?acc0 fresh_world
                = Returned (acc, w') \<and>
      batches acc = [[''f1'', ''f2'', ''f3''], [''f4'', ''f5'', ''f6''], [''f7'']]"
    using x xx a by (intro exI [of _ acc] exI [of _ w1]) simp
  have p2: "\<exists>bs w'. ProcessBatches picky_cluster (NewBatcher demo_config) seven_files fresh_world
               = Returned ((bs, None), w') \<and>
      map Files bs = [[''f1'', ''f2'', ''f3''], [''f4'', ''f5'', ''f6''], [''f7'']] \<and>
      map Number bs = [1, 2, 3]"
    using y yy e f m by (intro exI [of _ bs] exI [of _ w2]) simp
  from h p1 p2 show ?thesis by simp
qed

section \<open>Fatal and best-effort phases of Restore\<close>





section \<open>A discovery that fails or finds nothing\<close>

text \<open>
  C7. In a \<open>Restore\<close> that is not a dry run and has come through the download, the
  extraction and the deletion step, let the listing command return \<open>(output, stderr, ferr)\<close>,
  where a listing that succeeded is what \<open>find\<close> prints for the files it found under its
  start directory. If the command failed, or if \<open>parseFileList\<close> finds no file in the
  output, then \<open>importTsFiles\<close> returns no import result and an error (the wrapped error of
  the command, or \<open>no tsfile file found\<close>), and \<open>Restore\<close> returns at once with that error
  as the top-level \<open>Error\<close> of a result whose counts are zero, and with its wrapped form as
  its own error. The world it returns is the world the listing command left: \<open>Import\<close> is
  not called (for no batch size and no concurrency, not even one with which \<open>Import\<close> would
  panic), and neither a load nor the cleanup follows.
\<close>

theorem failed_discovery_is_fatal:
  assumes live: "\<not> DryRun opts"
    and dl: "downloadBackup cl cfg (backup_file_name cfg opts) w = Returned (None, wa)"
    and ex: "extractBackup cl cfg (backup_file_name cfg opts) wa = Returned (None, wb)"
    and del: "delete_phase cl cfg opts wb = Returned ((), wc)"
    and ls: "Exec cl [''sh'', ''-c'', find_command cfg] wc = Returned ((output, stderr, ferr), wd)"
    and printed: "ferr = None \<Longrightarrow> output = find_prints (start_directory cfg) names"
    and zero: "ferr \<noteq> None \<or> parseFileList output = Returned []"
  shows "\<exists>e. e = (case ferr of
                   Some fe \<Rightarrow> Wrap (''finding tsfile files failed: '' @ stderr) fe
                 | None \<Rightarrow> Err ''no tsfile file found'') \<and>
             importTsFiles cl cfg wc = Returned ((None, Some e), wd) \<and>
             Restore cl cfg opts w =
               Returned ((\<lparr>TotalFiles = 0, SuccessCount = 0, FailedCount = 0,
                           BackupFile = backup_file_name cfg opts,
                           Timestamp = RestoreOptions.Timestamp opts, Error = Some e\<rparr>,
                          Some (Wrap ''importing tsfile files failed'' e)), wd)"
proof -
  define e where "e = (case ferr of
                   Some fe \<Rightarrow> Wrap (''finding tsfile files failed: '' @ stderr) fe
                 | None \<Rightarrow> Err ''no tsfile file found'')"
  have imp: "importTsFiles cl cfg wc = Returned ((None, Some e), wd)"
  proof (cases ferr)
    case (Some fe)
    with ls discovery_fatal [of cl cfg wc "output" stderr fe wd] show ?thesis
      by (simp add: e_def)
  next
    case None
    with zero have "parseFileList output = Returned []" by simp
    with printed [OF None] have "output = []" using find_prints_no_file by simp
    with None ls discovery_fatal [of cl cfg wc "output" stderr _ wd] show ?thesis
      by (simp add: e_def)
  qed
  have "Restore cl cfg opts w =
               Returned ((\<lparr>TotalFiles = 0, SuccessCount = 0, FailedCount = 0,
                           BackupFile = backup_file_name cfg opts,
                           Timestamp = RestoreOptions.Timestamp opts, Error = Some e\<rparr>,
                          Some (Wrap ''importing tsfile files failed'' e)), wd)"
    using live dl ex del imp by (simp add: Restore_def Let_def bindP_def ret_def)
  with imp e_def show ?thesis by blast
qed

theorem failed_discovery_is_fatal_witness:
  "\<not> DryRun demo_options \<and>
   [] = find_prints (start_directory demo_config) [] \<and>
   parseFileList [] = Returned [] \<and>
   Restore (listing_cluster silent_reply) demo_config demo_options fresh_world =
     Returned ((\<lparr>TotalFiles = 0, SuccessCount = 0, FailedCount = 0, BackupFile = demo_file,
                 Timestamp = ''20240101103501'', Error = Some (Err ''no tsfile file found'')\<rparr>,
                Some (Wrap ''importing tsfile files failed'' (Err ''no tsfile file found''))),
       world_after (download_commands @ extract_commands @ delete_commands @ [find_command demo_config])) \<and>
   Restore (listing_cluster failed_reply) demo_config demo_options fresh_world =
     Returned ((\<lparr>TotalFiles = 0, SuccessCount = 0, FailedCount = 0, BackupFile = demo_file,
                 Timestamp = ''20240101103501'',
                 Error = Some (Wrap ''finding tsfile files failed: denied''
                                 (Wrap ''command failed'' (Err ''exit status 1'')))\<rparr>,
                Some (Wrap ''importing tsfile files failed''
                        (Wrap ''finding tsfile files failed: denied''
                           (Wrap ''command failed'' (Err ''exit status 1''))))),
       world_after (download_commands @ extract_commands @ delete_commands @ [find_command demo_config]))"
proof -
  have nd: "\<not> DryRun demo_options" by (simp add: demo_options_def)
  have f: "backup_file_name demo_config demo_options = demo_file" by (simp add: demo_file_def)
  have ts: "RestoreOptions.Timestamp demo_options = ''20240101103501''" by (simp add: demo_options_def)
  have p: "[] = find_prints (start_directory demo_config) []" by (simp add: find_prints_def)
  have q: "parseFileList [] = Returned []"
    by (simp add: parseFileList_def splitLines_def run_bind_def)
  have silent: "Restore (listing_cluster silent_reply) demo_config demo_options fresh_world =
     Returned ((\<lparr>TotalFiles = 0, SuccessCount = 0, FailedCount = 0, BackupFile = demo_file,
                 Timestamp = ''20240101103501'', Error = Some (Err ''no tsfile file found'')\<rparr>,
                Some (Wrap ''importing tsfile files failed'' (Err ''no tsfile file found''))),
       world_after (download_commands @ extract_commands @ delete_commands @ [find_command demo_config]))"
    using failed_discovery_is_fatal [OF nd, of "listing_cluster silent_reply" demo_config fresh_world
        "world_after download_commands"
        "world_after (download_commands @ extract_commands)"
        "world_after (download_commands @ extract_commands @ delete_commands)"
        "[]" "[]" None
        "world_after (download_commands @ extract_commands @ delete_commands @ [find_command demo_config])"
        "[]"]
      listing_download listing_extract listing_delete silent_find p q f ts
    by simp
  have denied: "Restore (listing_cluster failed_reply) demo_config demo_options fresh_world =
     Returned ((\<lparr>TotalFiles = 0, SuccessCount = 0, FailedCount = 0, BackupFile = demo_file,
                 Timestamp = ''20240101103501'',
                 Error = Some (Wrap ''finding tsfile files failed: denied''
                                 (Wrap ''command failed'' (Err ''exit status 1'')))\<rparr>,
                Some (Wrap ''importing tsfile files failed''
                        (Wrap ''finding tsfile files failed: denied''
                           (Wrap ''command failed'' (Err ''exit status 1''))))),
       world_after (download_commands @ extract_commands @ delete_commands @ [find_command demo_config]))"
    using failed_discovery_is_fatal [OF nd, of "listing_cluster failed_reply" demo_config fresh_world
        "world_after download_commands"
        "world_after (download_commands @ extract_commands)"
        "world_after (download_commands @ extract_commands @ delete_commands)"
        "[]" "''denied''" "Some (Wrap ''command failed'' (Err ''exit status 1''))"
        "world_after (download_commands @ extract_commands @ delete_commands @ [find_command demo_config])"
        "[]"]
      listing_download listing_extract listing_delete denied_find f ts
    by simp
  from nd p q silent denied show ?thesis by (intro conjI)
qed

section \<open>Dry run\<close>

text \<open>
  C9. With \<open>DryRun\<close> set, \<open>Restore\<close> returns a result whose three counts are zero, with
  no backup file name and no error, and leaves the world as it was: the executor is
  untouched and no request, command or sleep is added to the calls made.
\<close>

theorem dry_run_does_nothing:
  "DryRun opts \<Longrightarrow>
     Restore cl cfg opts w =
       Returned ((\<lparr>TotalFiles = 0, SuccessCount = 0, FailedCount = 0, BackupFile = [],
                   Timestamp = RestoreOptions.Timestamp opts, Error = None\<rparr>, None), w)"
  by (simp add: Restore_def dryRun_def ret_def)


theorem dry_run_does_nothing_witness:
  "DryRun (demo_options\<lparr>DryRun := True\<rparr>) \<and>
   Restore grumpy_cluster demo_config (demo_options\<lparr>DryRun := True\<rparr>) fresh_world =
     Returned ((\<lparr>TotalFiles = 0, SuccessCount = 0, FailedCount = 0, BackupFile = [],
                 Timestamp = ''20240101103501'', Error = None\<rparr>, None),
       \<lparr>exe = NewExecutor ''ems'' ''iotdb-0'', calls = []\<rparr>)"
proof -
  have h: "DryRun (demo_options\<lparr>DryRun := True\<rparr>)" by simp
  from dry_run_does_nothing [OF h, of grumpy_cluster demo_config fresh_world] h
  show ?thesis by (simp add: demo_options_def fresh_world_def)
qed



section \<open>A failing download\<close>

text \<open>
  C5, as the code has it. When nothing exists at \<open>destPath\<close>, \<open>maxRetries\<close> is positive
  and \<open>Download\<close> returns an error, then the files of the machine are as they were before
  the call, so no file is left at \<open>destPath\<close>, and one of three things happened. The
  destination directory could not be created: the error is returned before any attempt, in
  an unchanged state. Or \<open>os.Create\<close> failed in the attempt numbered \<open>k\<close>, after the
  attempts 0 to \<open>k - 1\<close> had ended in a retry: that error is returned as it is, and the GET
  of attempt \<open>k\<close> is the last thing the call did, with no sleep and no attempt after it,
  whatever \<open>maxRetries\<close> is. Or every attempt ended in a retry (the request could not be
  built, the transport failed, the status was not 200, or the copy failed): then exactly
  \<open>maxRetries\<close> attempts were made, numbered 0 to \<open>maxRetries - 1\<close>, each but the first after
  a sleep of \<open>retryDelay\<close> and each sending one GET (none if the request cannot be built),
  and the error wraps the error with which the attempt that left the final state ended.

  The last part holds of every single attempt: an attempt that starts with nothing at
  \<open>destPath\<close> and ends in a retry leaves the files as it found them, and where the copy had
  begun the destination file was there when the copy ended and is gone after the removal.
\<close>

theorem download_retries_or_stops:
  assumes nofile: "\<not> os_Stat_ok env h destPath" and pos: "0 < maxRetries d"
    and res: "Download d env url destPath h = Returned (Some err, h')"
  shows "disk h' = disk h \<and> map_of (disk h') destPath = None \<and>
         ((\<exists>e. err = Wrap ''creating the target directory failed'' e \<and> h' = h) \<or>
          (\<exists>e k. 0 \<le> k \<and> k < maxRetries d \<and>
             err = Wrap ''creating the destination file failed'' e \<and>
             create_error env (events h') destPath = Some e \<and>
             new_request env ''GET'' url = None \<and>
             events h' = events h @ concat (map (attempt_events d env url) [0..k])) \<or>
          (\<exists>cause h_pre.
             map_of (disk h_pre) destPath = None \<and>
             attempt env url destPath h_pre = Returned (Retry cause, h') \<and>
             err = Wrap ''download failed, giving up after the retries'' cause \<and>
             events h' = events h @ concat (map (attempt_events d env url) [0..maxRetries d - 1]))) \<and>
         (\<forall>g cause g'.
             map_of (disk g) destPath = None \<and> attempt env url destPath g = Returned (Retry cause, g')
             \<longrightarrow> disk g' = disk g \<and> events g' = events g @ gets env url) \<and>
         (\<forall>g g2 resp r g3.
             os_Create env destPath g = (None, g2) \<and> io_Copy env destPath resp g2 = Returned (r, g3)
             \<longrightarrow> map_of (disk g3) destPath \<noteq> None \<and> map_of (disk (remove_file destPath g3)) destPath = None)"
proof -
  obtain me h1 where m: "os_MkdirAll env (filepath_Dir env destPath) h = (me, h1)"
    by (cases "os_MkdirAll env (filepath_Dir env destPath) h")
  have h1: "me \<noteq> None \<longrightarrow> h1 = h" and dk: "disk h1 = disk h" and ev: "events h1 = events h"
    using m by (auto simp: os_MkdirAll_def split: if_splits option.splits)
  have nf: "map_of (disk h) destPath = None" using nofile by (simp add: os_Stat_ok_def)
  have each: "\<forall>g cause g'.
             map_of (disk g) destPath = None \<and> attempt env url destPath g = Returned (Retry cause, g')
             \<longrightarrow> disk g' = disk g \<and> events g' = events g @ gets env url"
    using attempt_Retry by blast
  have copy: "\<forall>g g2 resp r g3.
             os_Create env destPath g = (None, g2) \<and> io_Copy env destPath resp g2 = Returned (r, g3)
             \<longrightarrow> map_of (disk g3) destPath \<noteq> None \<and> map_of (disk (remove_file destPath g3)) destPath = None"
    using failed_copy_leaves_the_file by blast
  have main: "disk h' = disk h \<and>
         ((\<exists>e. err = Wrap ''creating the target directory failed'' e \<and> h' = h) \<or>
          (\<exists>e k. 0 \<le> k \<and> k < maxRetries d \<and>
             err = Wrap ''creating the destination file failed'' e \<and>
             create_error env (events h') destPath = Some e \<and>
             new_request env ''GET'' url = None \<and>
             events h' = events h @ concat (map (attempt_events d env url) [0..k])) \<or>
          (\<exists>cause h_pre.
             map_of (disk h_pre) destPath = None \<and>
             attempt env url destPath h_pre = Returned (Retry cause, h') \<and>
             err = Wrap ''download failed, giving up after the retries'' cause \<and>
             events h' = events h @ concat (map (attempt_events d env url) [0..maxRetries d - 1])))"
  proof (cases me)
    case (Some e)
    with m res h1 have "err = Wrap ''creating the target directory failed'' e \<and> h' = h"
      by (auto simp: Download_def DownloadWithProgress_def)
    then show ?thesis by blast
  next
    case None
    have st: "\<not> os_Stat_ok env h1 destPath"
    proof
      assume "os_Stat_ok env h1 destPath"
      with m None res show False by (simp add: Download_def DownloadWithProgress_def)
    qed
    have loop: "retry_loop d env url destPath 0 None h1 = Returned (Some err, h')"
      using m None res st by (simp add: Download_def DownloadWithProgress_def)
    have nf1: "map_of (disk h1) destPath = None" using nf dk by simp
    from retry_loop_fails [OF loop nf1] pos dk ev
    have "disk h' = disk h \<and>
       ((\<exists>e k. 0 \<le> k \<and> k < maxRetries d \<and>
           err = Wrap ''creating the destination file failed'' e \<and>
           create_error env (events h') destPath = Some e \<and>
           new_request env ''GET'' url = None \<and>
           events h' = events h @ concat (map (attempt_events d env url) [0..k])) \<or>
        (events h' = events h @ concat (map (attempt_events d env url) [0..maxRetries d - 1]) \<and>
         (\<exists>cause h_pre. map_of (disk h_pre) destPath = None \<and>
               attempt env url destPath h_pre = Returned (Retry cause, h') \<and>
               err = Wrap ''download failed, giving up after the retries'' cause)))"
      by simp
    then show ?thesis by blast
  qed
  from main have same: "disk h' = disk h" by (rule conjunct1)
  from main have how: "(\<exists>e. err = Wrap ''creating the target directory failed'' e \<and> h' = h) \<or>
          (\<exists>e k. 0 \<le> k \<and> k < maxRetries d \<and>
             err = Wrap ''creating the destination file failed'' e \<and>
             create_error env (events h') destPath = Some e \<and>
             new_request env ''GET'' url = None \<and>
             events h' = events h @ concat (map (attempt_events d env url) [0..k])) \<or>
          (\<exists>cause h_pre.
             map_of (disk h_pre) destPath = None \<and>
             attempt env url destPath h_pre = Returned (Retry cause, h') \<and>
             err = Wrap ''download failed, giving up after the retries'' cause \<and>
             events h' = events h @ concat (map (attempt_events d env url) [0..maxRetries d - 1]))"
    by (rule conjunct2)
  from same nf have gone: "map_of (disk h') destPath = None" by simp
  show ?thesis by (intro conjI; fact)
qed


text \<open>
  C5 as stated fails where \<open>os.Create\<close> fails: with \<open>maxRetries = 3\<close> and nothing at the
  destination, \<open>Download\<close> returns the error after a single GET.
\<close>

theorem create_failure_is_not_retried:
  "maxRetries NewOSSDownloader = 3 \<and> \<not> os_Stat_ok readonly_store empty_host dest \<and>
   Download NewOSSDownloader readonly_store store_url dest empty_host =
     Returned (Some (Wrap ''creating the destination file failed'' (Err ''permission denied'')),
               \<lparr>disk = [], directories = [''/tmp''], events = [HttpGet store_url]\<rparr>)"
  by (simp add: Download_def DownloadWithProgress_def os_MkdirAll_def os_Stat_ok_def dir_exists_def
        attempt_def observe_def Let_def NewOSSDownloader_def readonly_store_def empty_host_def dest_def
        os_Create_def)


theorem download_retries_or_stops_witness:
  "\<not> os_Stat_ok failing_store empty_host dest \<and> 0 < maxRetries NewOSSDownloader \<and>
   (\<exists>h'. Download NewOSSDownloader failing_store store_url dest empty_host =
       Returned (Some (Wrap ''download failed, giving up after the retries''
                         (Wrap ''downloading the file failed'' (Err ''unexpected EOF''))), h') \<and>
     events h' = [HttpGet store_url, Slept 5000000000, HttpGet store_url,
                  Slept 5000000000, HttpGet store_url] \<and>
     disk h' = disk empty_host \<and> map_of (disk h') dest = None) \<and>
   os_Create failing_store dest third_attempt_start
     = (None, third_attempt_start\<lparr>disk := [(dest, [])]\<rparr>) \<and>
   io_Copy failing_store dest broken_body (third_attempt_start\<lparr>disk := [(dest, [])]\<rparr>)
     = Returned (Some (Err ''unexpected EOF''), third_attempt_start\<lparr>disk := [(dest, ''partial'')]\<rparr>) \<and>
   map_of (disk (third_attempt_start\<lparr>disk := [(dest, ''partial'')]\<rparr>)) dest \<noteq> None \<and>
   map_of (disk (remove_file dest (third_attempt_start\<lparr>disk := [(dest, ''partial'')]\<rparr>))) dest = None"
proof -
  have a: "\<not> os_Stat_ok failing_store empty_host dest"
    by (simp add: os_Stat_ok_def dir_exists_def empty_host_def dest_def)
  have b: "0 < maxRetries NewOSSDownloader" by (simp add: NewOSSDownloader_def)
  note t = download_retries_or_stops [OF a b failing_store_run]
  have c1: "os_Create failing_store dest third_attempt_start
     = (None, third_attempt_start\<lparr>disk := [(dest, [])]\<rparr>)"
    and c2: "io_Copy failing_store dest broken_body (third_attempt_start\<lparr>disk := [(dest, [])]\<rparr>)
     = Returned (Some (Err ''unexpected EOF''), third_attempt_start\<lparr>disk := [(dest, ''partial'')]\<rparr>)"
    using third_attempt_copy by simp_all
  note t5 = t [THEN conjunct2, THEN conjunct2, THEN conjunct2, THEN conjunct2]
  have d: "map_of (disk (third_attempt_start\<lparr>disk := [(dest, ''partial'')]\<rparr>)) dest \<noteq> None \<and>
     map_of (disk (remove_file dest (third_attempt_start\<lparr>disk := [(dest, ''partial'')]\<rparr>))) dest = None"
    by (rule t5 [rule_format, OF conjI [OF c1 c2]])
  have t1: "disk \<lparr>disk = [], directories = [''/tmp''],
                 events = [HttpGet store_url, Slept 5000000000, HttpGet store_url,
                           Slept 5000000000, HttpGet store_url]\<rparr> = disk empty_host"
    by (rule t [THEN conjunct1])
  have t2: "map_of (disk \<lparr>disk = [], directories = [''/tmp''],
                 events = [HttpGet store_url, Slept 5000000000, HttpGet store_url,
                           Slept 5000000000, HttpGet store_url]\<rparr>) dest = None"
    by (rule t [THEN conjunct2, THEN conjunct1])
  have e: "\<exists>h'. Download NewOSSDownloader failing_store store_url dest empty_host =
       Returned (Some (Wrap ''download failed, giving up after the retries''
                         (Wrap ''downloading the file failed'' (Err ''unexpected EOF''))), h') \<and>
     events h' = [HttpGet store_url, Slept 5000000000, HttpGet store_url,
                  Slept 5000000000, HttpGet store_url] \<and>
     disk h' = disk empty_host \<and> map_of (disk h') dest = None"
    using failing_store_run t1 t2 by simp
  from a b e c1 c2 d [THEN conjunct1] d [THEN conjunct2] show ?thesis by (intro conjI)
qed


section \<open>A destination that already exists\<close>

text \<open>
  C8. When a file exists at \<open>destPath\<close>, \<open>Download\<close> returns nil and leaves the local
  machine exactly as it was: no request is sent, no sleep happens, and the files, among them
  the destination file, are unchanged.
\<close>

theorem download_skips_existing_file:
  assumes "map_of (disk h) destPath = Some content"
  shows "Download d env url destPath h = Returned (None, h)"
proof -
  have "os_MkdirAll env (filepath_Dir env destPath) h = (None, h)"
    using file_has_directory [OF assms] by (simp add: os_MkdirAll_def)
  moreover have "os_Stat_ok env h destPath" using assms by (simp add: os_Stat_ok_def)
  ultimately show ?thesis by (simp add: Download_def DownloadWithProgress_def)
qed



theorem download_skips_existing_file_witness:
  "map_of (disk full_host) dest = Some ''archive'' \<and>
   Download NewOSSDownloader failing_store store_url dest full_host = Returned (None, full_host) \<and>
   events full_host = []"
proof -
  have a: "map_of (disk full_host) dest = Some ''archive''" by (simp add: full_host_def)
  from download_skips_existing_file [OF a, of NewOSSDownloader failing_store store_url] a
  show ?thesis by (simp add: full_host_def)
qed


section \<open>The detected time stamp\<close>

text \<open>
  C6. \<open>DetectTimestamp\<close> probes the candidates of seconds 1, 2, ... in this order, each
  candidate being \<open>baseURL/emsau_{pod}_{hour}35{ss}.tar.gz\<close> with \<open>ss\<close> the second in two
  digits, 01 to 10. If \<open>k\<close> is the first second between 1 and 10 whose probe reports that
  the artifact exists, the result is the time stamp \<open>{hour}35{kk}\<close> with a nil error, and
  the probes made are those of seconds 1 to \<open>k\<close>. If no probe of the ten reports existence,
  the result is an error, after all ten probes.
\<close>

theorem detect_returns_first_existing_second:
  "(1 \<le> k \<and> k \<le> 10 \<and>
    probe_hit env (candidate_url baseURL pod hour k)
      (probed env (map (candidate_url baseURL pod hour) [1..k - 1]) h) \<and>
    (\<forall>j. 1 \<le> j \<and> j < k \<longrightarrow>
       \<not> probe_hit env (candidate_url baseURL pod hour j)
           (probed env (map (candidate_url baseURL pod hour) [1..j - 1]) h)) \<longrightarrow>
    DetectTimestamp env hour baseURL pod h =
      ((candidate_timestamp hour k, None),
       probed env (map (candidate_url baseURL pod hour) [1..k]) h)) \<and>
   ((\<forall>j. 1 \<le> j \<and> j \<le> 10 \<longrightarrow>
       \<not> probe_hit env (candidate_url baseURL pod hour j)
           (probed env (map (candidate_url baseURL pod hour) [1..j - 1]) h)) \<longrightarrow>
    DetectTimestamp env hour baseURL pod h =
      (([], Some (Err ''no matching backup file found'')),
       probed env (map (candidate_url baseURL pod hour) [1..10]) h)) \<and>
   candidate_url baseURL pod hour k =
     baseURL @ ''/emsau_'' @ pod @ ''_'' @ hour @ ''35'' @ fmt_02d k @ ''.tar.gz'' \<and>
   candidate_timestamp hour k = hour @ ''35'' @ fmt_02d k \<and>
   map fmt_02d [1..10] = [''01'', ''02'', ''03'', ''04'', ''05'', ''06'', ''07'', ''08'', ''09'', ''10'']"
proof (intro conjI impI)
  assume a: "1 \<le> k \<and> k \<le> 10 \<and>
    probe_hit env (candidate_url baseURL pod hour k)
      (probed env (map (candidate_url baseURL pod hour) [1..k - 1]) h) \<and>
    (\<forall>j. 1 \<le> j \<and> j < k \<longrightarrow>
       \<not> probe_hit env (candidate_url baseURL pod hour j)
           (probed env (map (candidate_url baseURL pod hour) [1..j - 1]) h))"
  then show "DetectTimestamp env hour baseURL pod h =
      ((candidate_timestamp hour k, None),
       probed env (map (candidate_url baseURL pod hour) [1..k]) h)"
    unfolding DetectTimestamp_def
    using detect_first_hit [of k 1 "nat (k - 1)" env baseURL pod hour h] by blast
next
  assume "\<forall>j. 1 \<le> j \<and> j \<le> 10 \<longrightarrow>
       \<not> probe_hit env (candidate_url baseURL pod hour j)
           (probed env (map (candidate_url baseURL pod hour) [1..j - 1]) h)"
  then show "DetectTimestamp env hour baseURL pod h =
      (([], Some (Err ''no matching backup file found'')),
       probed env (map (candidate_url baseURL pod hour) [1..10]) h)"
    unfolding DetectTimestamp_def
    using detect_no_hit [of 1 "nat 10" env baseURL pod hour h] by simp
next
  show "candidate_url baseURL pod hour k =
     baseURL @ ''/emsau_'' @ pod @ ''_'' @ hour @ ''35'' @ fmt_02d k @ ''.tar.gz''"
    by (simp add: candidate_url_def candidate_timestamp_def)
next
  show "candidate_timestamp hour k = hour @ ''35'' @ fmt_02d k"
    by (simp add: candidate_timestamp_def)
next
  show "map fmt_02d [1..10] = [''01'', ''02'', ''03'', ''04'', ''05'', ''06'', ''07'', ''08'', ''09'', ''10'']"
    by (rule seconds_two_digits)
qed


theorem detect_returns_first_existing_second_witness:
  "(1::int) \<le> 3 \<and> (3::int) \<le> 10 \<and>
   \<not> probe_hit archive_store (demo_candidate 1) (probed archive_store (map demo_candidate [1..0]) empty_host) \<and>
   \<not> probe_hit archive_store (demo_candidate 2) (probed archive_store (map demo_candidate [1..1]) empty_host) \<and>
   probe_hit archive_store (demo_candidate 3) (probed archive_store (map demo_candidate [1..2]) empty_host) \<and>
   probe_hit archive_store (demo_candidate 4) (probed archive_store (map demo_candidate [1..3]) empty_host) \<and>
   DetectTimestamp archive_store ''2024010110'' ''https://oss.example/backup'' ''iotdb-0'' empty_host =
     ((''20240101103503'', None),
      \<lparr>disk = [], directories = [''/tmp''],
        events = [HttpHead (demo_candidate 1), HttpHead (demo_candidate 2), HttpHead (demo_candidate 3)]\<rparr>)"
proof -
  have m1: "\<not> probe_hit archive_store (demo_candidate 1) (probed archive_store (map demo_candidate [1..0]) empty_host)"
    unfolding demo_probes
    by (simp add: probe_hit_def Exists_def observe_def Let_def archive_store_def empty_host_def)
  have m2: "\<not> probe_hit archive_store (demo_candidate 2) (probed archive_store (map demo_candidate [1..1]) empty_host)"
    unfolding demo_probes
    by (simp add: probe_hit_def Exists_def observe_def Let_def archive_store_def)
  have h3: "probe_hit archive_store (demo_candidate 3) (probed archive_store (map demo_candidate [1..2]) empty_host)"
    unfolding demo_probes
    by (simp add: probe_hit_def Exists_def observe_def Let_def archive_store_def)
  have h4: "probe_hit archive_store (demo_candidate 4) (probed archive_store (map demo_candidate [1..3]) empty_host)"
    unfolding demo_probes
    by (simp add: probe_hit_def Exists_def observe_def Let_def archive_store_def)
  have misses: "\<forall>j. 1 \<le> j \<and> j < 3 \<longrightarrow>
       \<not> probe_hit archive_store (demo_candidate j)
           (probed archive_store (map demo_candidate [1..j - 1]) empty_host)"
  proof (intro allI impI)
    fix j :: int assume "1 \<le> j \<and> j < 3"
    then have "j = 1 \<or> j = 2" by arith
    then show "\<not> probe_hit archive_store (demo_candidate j)
           (probed archive_store (map demo_candidate [1..j - 1]) empty_host)"
      using m1 m2 by auto
  qed
  from detect_returns_first_existing_second [of 3 archive_store "''https://oss.example/backup''"
      "''iotdb-0''" "''2024010110''" empty_host, THEN conjunct1]
    h3 misses
  have "DetectTimestamp archive_store ''2024010110'' ''https://oss.example/backup'' ''iotdb-0'' empty_host =
      ((candidate_timestamp ''2024010110'' 3, None),
       probed archive_store (map demo_candidate [1..3]) empty_host)"
    by (simp add: demo_candidate_def)
  then have "DetectTimestamp archive_store ''2024010110'' ''https://oss.example/backup'' ''iotdb-0'' empty_host =
     ((''20240101103503'', None),
      \<lparr>disk = [], directories = [''/tmp''],
        events = [HttpHead (demo_candidate 1), HttpHead (demo_candidate 2), HttpHead (demo_candidate 3)]\<rparr>)"
    unfolding demo_probes demo_stamp .
  with m1 m2 h3 h4 show ?thesis by simp
qed


end
